theory Spec2Isabelle
  imports Complex_Main "HOL-Library.Word"
begin

unbundle bit_operations_syntax

section \<open>Machine model\<close>

text \<open>
  The interpreter assumes that a machine pointer has the size of a C long and at least
  32 bits (MEMORY.C, header comment; the layout diagrams of MAGIC.C are drawn for 32 bits,
  and both targets named in the repository, Turbo C++ on an i486 and gcc on a SPARCstation,
  have 32-bit longs and pointers). The model fixes that size: an \<open>ulong\<close> and an
  \<open>ipointer\<close> are 32-bit words, a \<open>long int\<close> is the signed reading of such a word,
  and \<open>sizeof(ulong) = 4\<close>, so that \<open>p + n\<close> on an \<open>ipointer\<close> is \<open>p + 4 * n\<close> on addresses.
\<close>

type_synonym ulong = "32 word"
type_synonym ipointer = "32 word"
type_synonym uchar = "8 word"

definition NIL :: ipointer where
  "NIL = 0"

text \<open>What the interpreter prints: text of a \<open>printf\<close>, or a value handed to \<open>write_call\<close>
  (the writer's rendering of the value is not modelled).\<close>

datatype out_item = Text string | Written ipointer

text \<open>
  The globals of MEMORY.C, MAIN.C and MAGIC.C. The memory is one function from the address
  of a longword to its content; the cons-box area starts at \<open>cbslbase\<close>, the storage
  area at \<open>dslbase\<close>. The pointer stack, the reverse stack and the label stack are lists
  (the top of a stack is the head of its list; the reverse stack lists its entries in the
  order they were pushed, which is the order in which the collector scans them). The memory
  configuration constants (CBSLD = 16382, DSLD = 16382, STACKD = 10240, REVSTACKD = 2,
  LSTACKD = 10240 in the source) are carried in the state and never modified, so that every
  statement below holds for each configuration. The reserved-word globals of MAGIC.C
  (\<open>car_zap\<close>, \<open>cond_zap\<close>, ...) are one table \<open>zap\<close> from the spelling of the word to
  the value \<open>init_magic\<close> stored for it. \<open>oper\<close> is the local variable of
  \<open>evaluation_loop\<close> that survives from one turn of its loop to the next.
\<close>

record machine =
  CBSLD :: ulong
  DSLD :: ulong
  STACKD :: nat
  REVSTACKD :: nat
  LSTACKD :: nat
  mem :: "ulong \<Rightarrow> ulong"
  cbslbase :: ipointer
  dslbase :: ipointer
  stack :: "ulong list"
  revstack :: "ulong list"
  lstack :: "uchar list"
  cbox_free :: ipointer
  stor_free :: ipointer
  val_reg :: ipointer
  env_reg :: ipointer
  fun_reg :: ipointer
  argl_reg :: ipointer
  exp_reg :: ipointer
  unev_reg :: ipointer
  cont_reg :: uchar
  syntaxcheck :: bool
  keyword_pointer :: ipointer
  zap :: "string \<Rightarrow> ipointer"
  oper :: ipointer
  out :: "out_item list"

text \<open>
  A call either returns normally with a value and the new state, or leaves through
  \<open>goto_recoverable_error()\<close>, the \<open>longjmp\<close> to the recovery point. A call that never
  returns (a loop that does not end) is \<open>None\<close>.
\<close>

datatype 'a result = Normal 'a machine | Longjmp machine

type_synonym 'a M = "machine \<Rightarrow> 'a result option"

definition ret :: "'a \<Rightarrow> 'a M" where
  "ret x s = Some (Normal x s)"

definition bnd :: "'a M \<Rightarrow> ('a \<Rightarrow> 'b M) \<Rightarrow> 'b M" where
  "bnd m k s = (case m s of None \<Rightarrow> None
     | Some (Longjmp s') \<Rightarrow> Some (Longjmp s')
     | Some (Normal x s') \<Rightarrow> k x s')"

definition goto_recoverable_error :: "'a M" where
  "goto_recoverable_error s = Some (Longjmp s)"

definition printf :: "string \<Rightarrow> machine \<Rightarrow> machine" where
  "printf t s = s\<lparr>out := out s @ [Text t]\<rparr>"

definition write_call :: "ipointer \<Rightarrow> machine \<Rightarrow> machine" where
  "write_call cur s = s\<lparr>out := out s @ [Written cur]\<rparr>"

definition upd :: "(machine \<Rightarrow> machine) \<Rightarrow> unit M" where
  "upd f s = Some (Normal () (f s))"

lemma bnd_mono [partial_function_mono]:
  assumes mf: "mono_option (\<lambda>f. B f s)"
    and mg: "\<And>y s'. mono_option (\<lambda>f. C y f s')"
  shows "mono_option (\<lambda>f. bnd (B f) (\<lambda>y. C y f) s)"
proof -
  have eq: "\<And>f. bnd (B f) (\<lambda>y. C y f) s =
      Option.bind (B f s) (\<lambda>r. case r of Longjmp s' \<Rightarrow> Some (Longjmp s') | Normal x s' \<Rightarrow> C x f s')"
    by (simp add: bnd_def split: option.splits)
  have "mono_option (\<lambda>f. Option.bind (B f s)
      (\<lambda>r. case r of Longjmp s' \<Rightarrow> Some (Longjmp s') | Normal x s' \<Rightarrow> C x f s'))"
  proof (rule bind_mono[OF mf])
    fix r
    show "mono_option (\<lambda>f. case r of Longjmp s' \<Rightarrow> Some (Longjmp s') | Normal x s' \<Rightarrow> C x f s')"
      by (cases r) (simp_all add: mg option.const_mono)
  qed
  then show ?thesis by (simp only: eq)
qed


section \<open>Memory management (MEMORY.C)\<close>

subsection \<open>Pointers, marks and hints\<close>

definition NO_SPECIAL :: ulong where "NO_SPECIAL = 0"
definition ENV_SPECIAL :: ulong where "ENV_SPECIAL = 1"
definition PROC_SPECIAL :: ulong where "PROC_SPECIAL = 2"
definition ZAP_SPECIAL :: ulong where "ZAP_SPECIAL = 3"

text \<open>\<open>p + n\<close> on an \<open>ipointer\<close>: \<open>n\<close> longwords further.\<close>

definition ptr_add :: "ipointer \<Rightarrow> ulong \<Rightarrow> ipointer" where
  "ptr_add p n = p + 4 * n"

definition quadword_aligned_p :: "ipointer \<Rightarrow> bool" where
  "quadword_aligned_p ptr = (ptr AND (2 * 4 - 1) = 0)"

definition special_p :: "ipointer \<Rightarrow> bool" where
  "special_p cur = (cur AND 0x06 \<noteq> 0)"

definition storage_p :: "machine \<Rightarrow> ipointer \<Rightarrow> bool" where
  "storage_p s cur = (\<not> special_p cur \<and> quadword_aligned_p cur \<and>
     dslbase s \<le> cur \<and> cur < ptr_add (dslbase s) (DSLD s))"

definition cbox_p :: "machine \<Rightarrow> ipointer \<Rightarrow> bool" where
  "cbox_p s cur = (\<not> special_p cur \<and> quadword_aligned_p cur \<and>
     cbslbase s \<le> cur \<and> cur < ptr_add (cbslbase s) (CBSLD s))"

definition poke :: "ipointer \<Rightarrow> ulong \<Rightarrow> machine \<Rightarrow> machine" where
  "poke a w s = s\<lparr>mem := (mem s)(a := w)\<rparr>"

definition car_unmarked_p :: "machine \<Rightarrow> ipointer \<Rightarrow> bool" where
  "car_unmarked_p s cur = (mem s cur AND 0x01 = 0)"

definition set_car_mark :: "ipointer \<Rightarrow> machine \<Rightarrow> machine" where
  "set_car_mark cur s = poke cur (mem s cur OR 0x01) s"

definition unset_car_mark :: "ipointer \<Rightarrow> machine \<Rightarrow> machine" where
  "unset_car_mark cur s = poke cur (mem s cur AND NOT 0x01) s"

definition cdr_unmarked_p :: "machine \<Rightarrow> ipointer \<Rightarrow> bool" where
  "cdr_unmarked_p s cur = (mem s (ptr_add cur 1) AND 0x01 = 0)"

definition set_cdr_mark :: "ipointer \<Rightarrow> machine \<Rightarrow> machine" where
  "set_cdr_mark cur s = poke (ptr_add cur 1) (mem s (ptr_add cur 1) OR 0x01) s"

definition unset_cdr_mark :: "ipointer \<Rightarrow> machine \<Rightarrow> machine" where
  "unset_cdr_mark cur s = poke (ptr_add cur 1) (mem s (ptr_add cur 1) AND NOT 0x01) s"

definition storage_unmarked_p :: "machine \<Rightarrow> ipointer \<Rightarrow> bool" where
  "storage_unmarked_p s cur = (mem s cur AND 0x01 = 0)"

definition set_storage_mark :: "ipointer \<Rightarrow> machine \<Rightarrow> machine" where
  "set_storage_mark cur s = poke cur (mem s cur OR 0x01) s"

definition unset_storage_mark :: "ipointer \<Rightarrow> machine \<Rightarrow> machine" where
  "unset_storage_mark cur s = poke cur (mem s cur AND NOT 0x01) s"

definition set_zap_special :: "ipointer \<Rightarrow> ipointer" where
  "set_zap_special cur = (cur AND NOT 0x06) OR (push_bit 1 ZAP_SPECIAL AND 0x06)"

definition set_hint_procedure :: "ipointer \<Rightarrow> machine \<Rightarrow> machine" where
  "set_hint_procedure cur s =
     poke (ptr_add cur 1) ((mem s (ptr_add cur 1) AND NOT 0x06) OR (push_bit 1 PROC_SPECIAL AND 0x06)) s"

definition set_hint_environment :: "ipointer \<Rightarrow> machine \<Rightarrow> machine" where
  "set_hint_environment cur s =
     poke (ptr_add cur 1) ((mem s (ptr_add cur 1) AND NOT 0x06) OR (push_bit 1 ENV_SPECIAL AND 0x06)) s"

definition hint_environment_p :: "machine \<Rightarrow> ipointer \<Rightarrow> bool" where
  "hint_environment_p s cur = (mem s (ptr_add cur 1) AND 0x06 = push_bit 1 ENV_SPECIAL AND 0x06)"

definition hint_procedure_p :: "machine \<Rightarrow> ipointer \<Rightarrow> bool" where
  "hint_procedure_p s cur = (mem s (ptr_add cur 1) AND 0x06 = push_bit 1 PROC_SPECIAL AND 0x06)"

text \<open>\<open>car\<close> and \<open>cdr\<close> filter the mark bit, and the hint bits unless they say "special value".\<close>

definition car :: "machine \<Rightarrow> ipointer \<Rightarrow> ipointer" where
  "car s cur = (if mem s cur AND 0x06 = push_bit 1 ZAP_SPECIAL
     then mem s cur AND NOT 0x01 else mem s cur AND NOT 0x07)"

definition cdr :: "machine \<Rightarrow> ipointer \<Rightarrow> ipointer" where
  "cdr s cur = (if mem s (ptr_add cur 1) AND 0x06 = push_bit 1 ZAP_SPECIAL
     then mem s (ptr_add cur 1) AND NOT 0x01 else mem s (ptr_add cur 1) AND NOT 0x07)"

definition set_car :: "ipointer \<Rightarrow> ipointer \<Rightarrow> machine \<Rightarrow> machine" where
  "set_car this that s = poke this that s"

definition set_cdr :: "ipointer \<Rightarrow> ipointer \<Rightarrow> machine \<Rightarrow> machine" where
  "set_cdr this that s = poke (ptr_add this 1) that s"

definition set_car_nomodify :: "ipointer \<Rightarrow> ipointer \<Rightarrow> machine \<Rightarrow> machine" where
  "set_car_nomodify this that s = poke this ((that AND NOT 0x07) OR (mem s this AND 0x07)) s"

definition set_cdr_nomodify :: "ipointer \<Rightarrow> ipointer \<Rightarrow> machine \<Rightarrow> machine" where
  "set_cdr_nomodify this that s =
     poke (ptr_add this 1) ((that AND NOT 0x07) OR (mem s (ptr_add this 1) AND 0x07)) s"

definition set_freeptr :: "ipointer \<Rightarrow> ipointer \<Rightarrow> machine \<Rightarrow> machine" where
  "set_freeptr this that s = poke (ptr_add this 1) that s"

definition get_freeptr :: "machine \<Rightarrow> ipointer \<Rightarrow> ipointer" where
  "get_freeptr s this = mem s (ptr_add this 1)"

definition set_size :: "ipointer \<Rightarrow> ulong \<Rightarrow> machine \<Rightarrow> machine" where
  "set_size cur sz s =
     (let sz' = (if sz = 0x10000 then 0 else sz)
      in poke cur ((mem s cur AND 0xFFFF) OR push_bit 16 sz') s)"

definition get_size :: "machine \<Rightarrow> ipointer \<Rightarrow> ulong" where
  "get_size s cur = (let w = drop_bit 16 (mem s cur) AND 0xFFFF in if w = 0 then 0x10000 else w)"

definition set_typedesc :: "ipointer \<Rightarrow> ulong \<Rightarrow> machine \<Rightarrow> machine" where
  "set_typedesc cur td s = poke cur ((mem s cur AND NOT 0xFFFE) OR push_bit 1 (td AND 0x7FFF)) s"

definition get_typedesc :: "machine \<Rightarrow> ipointer \<Rightarrow> ulong" where
  "get_typedesc s cur = drop_bit 1 (mem s cur) AND 0x7FFF"

definition even_p :: "ulong \<Rightarrow> bool" where
  "even_p v = (v AND 0x01 = 0)"

subsection \<open>Stacks\<close>

text \<open>
  \<open>push_label\<close> and \<open>push_pointer\<close> decrement the stack pointer before they test it; after
  an overflow the recovery point resets both stacks (\<open>init_stack\<close>), so the model leaves the
  list as it was.
\<close>

definition init_stack :: "machine \<Rightarrow> machine" where
  "init_stack s = s\<lparr>stack := [], lstack := []\<rparr>"

definition init_registers :: "machine \<Rightarrow> machine" where
  "init_registers s = s\<lparr>val_reg := NIL, env_reg := NIL, fun_reg := NIL, argl_reg := NIL,
     exp_reg := NIL, unev_reg := NIL, cont_reg := 0\<rparr>"

definition push_label :: "uchar \<Rightarrow> unit M" where
  "push_label label s =
     (if LSTACKD s \<le> length (lstack s)
      then goto_recoverable_error (printf ''*** Label-stack overflow ***'' s)
      else ret () (s\<lparr>lstack := label # lstack s\<rparr>))"

definition pop_label :: "uchar M" where
  "pop_label s =
     (case lstack s of
        [] \<Rightarrow> goto_recoverable_error (printf ''PROGRAM ERROR: pop of empty label stack attempted.'' s)
      | label # ls \<Rightarrow> ret label (s\<lparr>lstack := ls\<rparr>))"

definition push_pointer :: "ipointer \<Rightarrow> unit M" where
  "push_pointer ptr s =
     (if STACKD s \<le> length (stack s)
      then goto_recoverable_error (printf ''*** Pointer-stack overflow ***'' s)
      else ret () (s\<lparr>stack := ptr # stack s\<rparr>))"

definition pop_pointer :: "ipointer M" where
  "pop_pointer s =
     (case stack s of
        [] \<Rightarrow> goto_recoverable_error (printf ''PROGRAM ERROR: pop of empty pointer stack attempted.'' s)
      | ptr # ps \<Rightarrow> ret ptr (s\<lparr>stack := ps\<rparr>))"

subsection \<open>The garbage collector\<close>

text \<open>
  One turn of the \<open>do ... while (!stop)\<close> loop of \<open>mark\<close>: the new state, \<open>cur\<close>, \<open>prev\<close>
  and \<open>stop\<close>.
\<close>

definition mark_step :: "machine \<Rightarrow> ipointer \<Rightarrow> ipointer \<Rightarrow> machine \<times> ipointer \<times> ipointer \<times> bool" where
  "mark_step s cur prev =
    (if storage_p s cur then (set_storage_mark cur s, cur, prev, prev = NIL)
     else if car_unmarked_p s cur then
       (let s1 = set_car_mark cur s in
        if \<not> special_p (car s1 cur) \<and> car s1 cur \<noteq> NIL then
          (let next = car s1 cur in
           if cbox_p s1 next then
             (if car_unmarked_p s1 next then (set_car_nomodify cur prev s1, next, cur, False)
              else (s1, cur, prev, False))
           else (set_storage_mark next s1, cur, prev, False))
        else (s1, cur, prev, False))
     else if cdr_unmarked_p s cur then
       (let s1 = set_cdr_mark cur s in
        if \<not> special_p (cdr s1 cur) \<and> cdr s1 cur \<noteq> NIL then
          (let next = cdr s1 cur in
           if cbox_p s1 next then
             (if car_unmarked_p s1 next then (set_cdr_nomodify cur prev s1, next, cur, False)
              else (s1, cur, prev, False))
           else (set_storage_mark next s1, cur, prev, False))
        else (s1, cur, prev, False))
     else if prev = NIL then (s, cur, prev, True)
     else if cdr_unmarked_p s prev then (set_car_nomodify prev cur s, prev, car s prev, False)
     else (set_cdr_nomodify prev cur s, prev, cdr s prev, False))"

partial_function (option) mark_loop :: "machine \<Rightarrow> ipointer \<Rightarrow> ipointer \<Rightarrow> machine option" where
  "mark_loop s cur prev =
     (case mark_step s cur prev of (s', cur', prev', stop) \<Rightarrow>
        if stop then Some s' else mark_loop s' cur' prev')"

definition mark :: "ipointer \<Rightarrow> machine \<Rightarrow> machine option" where
  "mark cur s = mark_loop s cur NIL"

partial_function (option) sweep_cbox_loop :: "machine \<Rightarrow> ipointer \<Rightarrow> machine option" where
  "sweep_cbox_loop s pointer =
     (if pointer < ptr_add (cbslbase s) (CBSLD s) then
        (if car_unmarked_p s pointer
         then sweep_cbox_loop
                ((set_cdr pointer (cbox_free s) (set_car pointer NIL s))\<lparr>cbox_free := pointer\<rparr>)
                (ptr_add pointer 2)
         else sweep_cbox_loop (unset_cdr_mark pointer (unset_car_mark pointer s)) (ptr_add pointer 2))
      else Some s)"

definition sweep_cbox :: "machine \<Rightarrow> machine option" where
  "sweep_cbox s = sweep_cbox_loop (s\<lparr>cbox_free := NIL\<rparr>) (cbslbase s)"

text \<open>The inner loop of \<open>sweep_storage\<close>: the length of the run of unmarked blocks.\<close>

partial_function (option) sweep_run :: "machine \<Rightarrow> ipointer \<Rightarrow> ulong \<Rightarrow> ulong option" where
  "sweep_run s pointer sz =
     (if ptr_add pointer sz < ptr_add (dslbase s) (DSLD s) \<and>
         storage_unmarked_p s (ptr_add pointer sz) \<and> sz \<le> 65536
      then sweep_run s pointer (sz + get_size s (ptr_add pointer sz))
      else Some sz)"

partial_function (option) sweep_storage_loop :: "machine \<Rightarrow> ipointer \<Rightarrow> machine option" where
  "sweep_storage_loop s pointer =
     (if pointer < ptr_add (dslbase s) (DSLD s) then
        (if \<not> storage_unmarked_p s pointer then
           (let s1 = unset_storage_mark pointer s
            in sweep_storage_loop s1 (ptr_add pointer (get_size s1 pointer)))
         else
           (case sweep_run s pointer 0 of
              None \<Rightarrow> None
            | Some sz \<Rightarrow>
                if sz > 65536 then
                  (let s1 = set_size pointer 65536 s;
                       sz' = sz - 65536;
                       s2 = (set_freeptr pointer (stor_free s1) s1)\<lparr>stor_free := pointer\<rparr>;
                       pointer' = ptr_add pointer 65536
                   in sweep_storage_loop (set_size pointer' sz' s2) pointer')
                else
                  (let s1 = set_size pointer sz s;
                       s2 = (set_freeptr pointer (stor_free s1) s1)\<lparr>stor_free := pointer\<rparr>
                   in sweep_storage_loop s2 (ptr_add pointer sz))))
      else Some s)"

definition sweep_storage :: "machine \<Rightarrow> machine option" where
  "sweep_storage s = sweep_storage_loop (s\<lparr>stor_free := NIL\<rparr>) (dslbase s)"

text \<open>The roots are marked one after the other; a special value or NIL is skipped.\<close>

definition mark_root :: "ipointer \<Rightarrow> machine \<Rightarrow> machine option" where
  "mark_root p s = (if \<not> special_p p \<and> p \<noteq> NIL then mark p s else Some s)"

fun mark_roots :: "ipointer list \<Rightarrow> machine \<Rightarrow> machine option" where
  "mark_roots [] s = Some s"
| "mark_roots (p # ps) s = Option.bind (mark_root p s) (mark_roots ps)"

text \<open>
  \<open>garbage_collect\<close> scans the memory from \<open>stack_ptr\<close> up to \<open>revstack_ptr\<close>: the
  pointer stack from its top to its base, then the part of the reverse stack in use. The
  registers follow, then the two sweeps.
\<close>

definition garbage_collect :: "machine \<Rightarrow> machine option" where
  "garbage_collect s =
     Option.bind (mark_roots (stack s @ revstack s) (printf ''Garbage collector running...'' s)) (\<lambda>s1.
     Option.bind (mark_root (val_reg s1) s1) (\<lambda>s2.
     Option.bind (mark_root (env_reg s2) s2) (\<lambda>s3.
     Option.bind (mark_root (fun_reg s3) s3) (\<lambda>s4.
     Option.bind (mark_root (argl_reg s4) s4) (\<lambda>s5.
     Option.bind (mark_root (exp_reg s5) s5) (\<lambda>s6.
     Option.bind (mark_root (unev_reg s6) s6) (\<lambda>s7.
     Option.bind (sweep_cbox s7) (\<lambda>s8.
     Option.bind (sweep_storage s8) (\<lambda>s9.
     Some (printf ''done.'' s9))))))))))"

subsection \<open>Allocation\<close>

definition new_cons :: "ipointer M" where
  "new_cons s =
     (let take = (\<lambda>s. let tmp = cbox_free s
                      in ret tmp (set_cdr tmp NIL (s\<lparr>cbox_free := cdr s tmp\<rparr>)))
      in if cbox_free s = NIL then
           (case garbage_collect s of
              None \<Rightarrow> None
            | Some s1 \<Rightarrow>
                if cbox_free s1 = NIL
                then goto_recoverable_error (printf ''*** Out of cons box space ***'' s1)
                else take s1)
         else take s)"

text \<open>The first-fit search of \<open>new_storage\<close>: \<open>tmp\<close> and \<open>lst\<close> when the loop ends.\<close>

partial_function (option) first_fit :: "machine \<Rightarrow> ulong \<Rightarrow> ipointer \<Rightarrow> ipointer \<Rightarrow> (ipointer \<times> ipointer) option" where
  "first_fit s sz tmp lst =
     (if tmp \<noteq> NIL \<and> get_size s tmp < sz
      then first_fit s sz (get_freeptr s tmp) tmp
      else Some (tmp, lst))"

definition round_size :: "ulong \<Rightarrow> ulong" where
  "round_size sz = ((((sz + 4 - 1) div 4) + 2) div 2) * 2"

definition carve :: "ulong \<Rightarrow> ipointer \<Rightarrow> ipointer \<Rightarrow> ipointer M" where
  "carve sz tmp lst s =
     (let restsize = get_size s tmp - sz in
      if restsize \<noteq> 0 then
        (let s1 = set_size tmp restsize s;
             tmp' = ptr_add tmp restsize
         in ret tmp' (set_size tmp' sz (poke tmp' 0 s1)))
      else if lst = NIL then ret tmp (s\<lparr>stor_free := get_freeptr s tmp\<rparr>)
      else ret tmp (set_freeptr lst (get_freeptr s tmp) s))"

definition new_storage :: "ulong \<Rightarrow> ipointer M" where
  "new_storage size0 s =
     (let sz = round_size size0 in
      if sz > 65536 then
        goto_recoverable_error (printf ''PROGRAM INTERNAL: memory.c: too large a block requested.'' s)
      else
        (case first_fit s sz (stor_free s) NIL of
           None \<Rightarrow> None
         | Some (tmp, lst) \<Rightarrow>
             if tmp = NIL then
               (case garbage_collect s of
                  None \<Rightarrow> None
                | Some s1 \<Rightarrow>
                    (case first_fit s1 sz (stor_free s1) NIL of
                       None \<Rightarrow> None
                     | Some (tmp1, lst1) \<Rightarrow>
                         if tmp1 = NIL
                         then goto_recoverable_error (printf ''*** Out of storage space ***'' s1)
                         else carve sz tmp1 lst1 s1))
             else carve sz tmp lst s))"

subsection \<open>Statistics\<close>

partial_function (option) stat_cbox_free_loop :: "machine \<Rightarrow> ipointer \<Rightarrow> ulong \<Rightarrow> ulong option" where
  "stat_cbox_free_loop s pointer i =
     (if pointer \<noteq> NIL then stat_cbox_free_loop s (cdr s pointer) (i + 1) else Some i)"

definition stat_cbox_free :: "machine \<Rightarrow> ulong option" where
  "stat_cbox_free s = stat_cbox_free_loop s (cbox_free s) 0"

partial_function (option) stat_storage_free_loop :: "machine \<Rightarrow> ipointer \<Rightarrow> ulong \<Rightarrow> ulong option" where
  "stat_storage_free_loop s pointer i =
     (if pointer \<noteq> NIL
      then stat_storage_free_loop s (get_freeptr s pointer) (i + get_size s pointer - 1)
      else Some i)"

definition stat_storage_free :: "machine \<Rightarrow> ulong option" where
  "stat_storage_free s = stat_storage_free_loop s (stor_free s) 0"

partial_function (option) stat_storage_blocs_loop :: "machine \<Rightarrow> ipointer \<Rightarrow> ulong \<Rightarrow> ulong option" where
  "stat_storage_blocs_loop s pointer i =
     (if pointer \<noteq> NIL then stat_storage_blocs_loop s (get_freeptr s pointer) (i + 1) else Some i)"

definition stat_storage_blocs :: "machine \<Rightarrow> ulong option" where
  "stat_storage_blocs s = stat_storage_blocs_loop s (stor_free s) 0"

definition stat_stack_free :: "machine \<Rightarrow> ulong" where
  "stat_stack_free s = of_nat (STACKD s) - of_nat (length (stack s))"

definition stat_lstack_free :: "machine \<Rightarrow> ulong" where
  "stat_lstack_free s = of_nat (LSTACKD s) - of_nat (length (lstack s))"


section \<open>Special values and typed storage (MAGIC.C)\<close>

type_synonym long = "32 word"

definition BOOL_MAGIC :: ulong where "BOOL_MAGIC = 0"
definition CHAR_MAGIC :: ulong where "CHAR_MAGIC = 1"
definition STRING_MAGIC_0 :: ulong where "STRING_MAGIC_0 = 2"
definition STRING_MAGIC_1 :: ulong where "STRING_MAGIC_1 = 3"
definition STRING_MAGIC_2 :: ulong where "STRING_MAGIC_2 = 4"
definition STRING_MAGIC_3 :: ulong where "STRING_MAGIC_3 = 5"
definition SHORT_MAGIC :: ulong where "SHORT_MAGIC = 7"
definition SYM_MAGIC_1 :: ulong where "SYM_MAGIC_1 = 8"
definition SYM_MAGIC_2 :: ulong where "SYM_MAGIC_2 = 9"
definition SYM_MAGIC_3 :: ulong where "SYM_MAGIC_3 = 10"

definition STRING_STORAGE :: ulong where "STRING_STORAGE = 0"
definition INTEGER_STORAGE :: ulong where "INTEGER_STORAGE = 1"
definition SYMBOL_STORAGE :: ulong where "SYMBOL_STORAGE = 2"

subsection \<open>The fields of a special value\<close>

definition get_zap_dataA :: "ipointer \<Rightarrow> uchar" where
  "get_zap_dataA cur = ucast (drop_bit 8 cur AND 0xFF)"

definition get_zap_dataB0 :: "ipointer \<Rightarrow> uchar" where
  "get_zap_dataB0 cur = ucast (drop_bit 16 cur AND 0xFF)"

definition get_zap_dataB1 :: "ipointer \<Rightarrow> uchar" where
  "get_zap_dataB1 cur = ucast (drop_bit 24 cur AND 0xFF)"

definition get_zap_dataB :: "ipointer \<Rightarrow> ulong" where
  "get_zap_dataB cur = drop_bit 16 cur AND 0xFFFF"

definition set_zap_dataA :: "ipointer \<Rightarrow> uchar \<Rightarrow> ipointer" where
  "set_zap_dataA cur ch = (cur AND NOT 0xFF00) OR push_bit 8 (ucast ch AND 0xFF)"

definition set_zap_dataB0 :: "ipointer \<Rightarrow> uchar \<Rightarrow> ipointer" where
  "set_zap_dataB0 cur ch = (cur AND NOT 0xFF0000) OR push_bit 16 (ucast ch AND 0xFF)"

definition set_zap_dataB1 :: "ipointer \<Rightarrow> uchar \<Rightarrow> ipointer" where
  "set_zap_dataB1 cur ch = (cur AND NOT 0xFF000000) OR push_bit 24 (ucast ch AND 0xFF)"

definition set_zap_dataB :: "ipointer \<Rightarrow> ulong \<Rightarrow> ipointer" where
  "set_zap_dataB cur v = (cur AND NOT 0xFFFF0000) OR push_bit 16 (v AND 0xFFFF)"

definition get_zap_type :: "ipointer \<Rightarrow> ulong" where
  "get_zap_type cur = drop_bit 3 cur AND 0x1F"

definition set_zap_type :: "ipointer \<Rightarrow> ulong \<Rightarrow> ipointer" where
  "set_zap_type cur ty = (cur AND NOT 0xF8) OR push_bit 3 (ty AND 0x1F)"

subsection \<open>Strings in memory\<close>

text \<open>
  A \<open>char *\<close> argument is the list of its characters up to the terminating NUL. A string
  in the storage area is packed into longwords; the model places byte \<open>k\<close> of a longword
  at bits \<open>8k .. 8k+7\<close> (the i486's order; nothing below depends on the choice). Reading a
  C string runs until it meets a NUL.
\<close>

definition cstr :: "string \<Rightarrow> string" where
  "cstr val = takeWhile (\<lambda>c. c \<noteq> CHR 0x00) val"

definition peek_byte :: "machine \<Rightarrow> ulong \<Rightarrow> uchar" where
  "peek_byte s a = ucast (drop_bit (8 * unat (a AND 3)) (mem s (a AND NOT 3)) AND 0xFF)"

definition poke_byte :: "ulong \<Rightarrow> uchar \<Rightarrow> machine \<Rightarrow> machine" where
  "poke_byte a b s =
     poke (a AND NOT 3)
       ((mem s (a AND NOT 3) AND NOT (push_bit (8 * unat (a AND 3)) 0xFF))
         OR push_bit (8 * unat (a AND 3)) (ucast b)) s"

fun strcpy :: "ulong \<Rightarrow> string \<Rightarrow> machine \<Rightarrow> machine" where
  "strcpy a [] s = poke_byte a 0 s"
| "strcpy a (c # cs) s = strcpy (a + 1) cs (poke_byte a (of_char c) s)"

partial_function (option) c_string_from :: "machine \<Rightarrow> ulong \<Rightarrow> string \<Rightarrow> string option" where
  "c_string_from s a acc =
     (if peek_byte s a = 0 then Some (rev acc)
      else c_string_from s (a + 1) (char_of (unat (peek_byte s a)) # acc))"

definition c_string :: "machine \<Rightarrow> ulong \<Rightarrow> string option" where
  "c_string s a = c_string_from s a []"

subsection \<open>Typed storage\<close>

definition set_data_storage_string :: "ipointer \<Rightarrow> string \<Rightarrow> machine \<Rightarrow> machine" where
  "set_data_storage_string cur val s = set_typedesc cur STRING_STORAGE (strcpy (ptr_add cur 1) val s)"

definition set_data_storage_symbol :: "ipointer \<Rightarrow> string \<Rightarrow> machine \<Rightarrow> machine" where
  "set_data_storage_symbol cur val s = set_typedesc cur SYMBOL_STORAGE (strcpy (ptr_add cur 1) val s)"

definition set_data_storage_integer :: "ipointer \<Rightarrow> long \<Rightarrow> machine \<Rightarrow> machine" where
  "set_data_storage_integer cur val s = set_typedesc cur INTEGER_STORAGE (poke (ptr_add cur 1) val s)"

definition extract_data_storage_string :: "machine \<Rightarrow> ipointer \<Rightarrow> string option" where
  "extract_data_storage_string s cur = c_string s (ptr_add cur 1)"

definition extract_data_storage_symbol :: "machine \<Rightarrow> ipointer \<Rightarrow> string option" where
  "extract_data_storage_symbol s cur = c_string s (ptr_add cur 1)"

definition extract_data_storage_integer :: "machine \<Rightarrow> ipointer \<Rightarrow> long" where
  "extract_data_storage_integer s cur = mem s (ptr_add cur 1)"

text \<open>\<open>extract_zap_string\<close> fills a static buffer, which is then read as a C string.\<close>

definition extract_zap_string :: "ipointer \<Rightarrow> nat \<Rightarrow> string" where
  "extract_zap_string cur len =
     cstr ((if len = 3 then [char_of (unat (get_zap_dataB1 cur))] else [])
         @ (if len = 3 \<or> len = 2 then [char_of (unat (get_zap_dataB0 cur))] else [])
         @ (if len = 3 \<or> len = 2 \<or> len = 1 then [char_of (unat (get_zap_dataA cur))] else []))"

subsection \<open>Constructors\<close>

definition make_bool :: "bool \<Rightarrow> ipointer" where
  "make_bool val = set_zap_special (set_zap_dataA (set_zap_type 0 BOOL_MAGIC) (of_bool val))"

text \<open>\<open>init_magic\<close> stores \<open>make_bool(TRUE)\<close> and \<open>make_bool(FALSE)\<close> in these two globals.\<close>

definition true_zap :: ipointer where
  "true_zap = make_bool True"

definition false_zap :: ipointer where
  "false_zap = make_bool False"

definition make_char :: "long \<Rightarrow> ipointer" where
  "make_char val = set_zap_special (set_zap_dataB (set_zap_type 0 CHAR_MAGIC) val)"

text \<open>The symbols and strings of up to three characters, which need no storage.\<close>

definition zap_chars :: "ulong \<Rightarrow> ulong \<Rightarrow> ulong \<Rightarrow> string \<Rightarrow> ipointer" where
  "zap_chars t1 t2 t3 v =
     (if length v = 1 then
        set_zap_special (set_zap_dataA (set_zap_type 0 t1) (of_char (v ! 0)))
      else if length v = 2 then
        set_zap_special (set_zap_dataB0 (set_zap_dataA (set_zap_type 0 t2) (of_char (v ! 1))) (of_char (v ! 0)))
      else
        set_zap_special (set_zap_dataB1 (set_zap_dataB0 (set_zap_dataA (set_zap_type 0 t3)
          (of_char (v ! 2))) (of_char (v ! 1))) (of_char (v ! 0))))"

definition integer_of :: "machine \<Rightarrow> ipointer \<Rightarrow> long" where
  "integer_of s x =
     (if special_p x then
        (let i = get_zap_dataB x in if i AND 0x8000 \<noteq> 0 then i OR NOT 0xFFFF else i)
      else extract_data_storage_integer s x)"

definition bool_of :: "ipointer \<Rightarrow> bool" where
  "bool_of x = (x = true_zap)"

definition symbol_of :: "machine \<Rightarrow> ipointer \<Rightarrow> string option" where
  "symbol_of s x =
     (if special_p x then
        (let a = get_zap_type x in
         if a = SYM_MAGIC_1 then Some (extract_zap_string x 1)
         else if a = SYM_MAGIC_2 then Some (extract_zap_string x 2)
         else Some (extract_zap_string x 3))
      else extract_data_storage_symbol s x)"

definition string_of :: "machine \<Rightarrow> ipointer \<Rightarrow> string option" where
  "string_of s x =
     (if special_p x then
        (let a = get_zap_type x in
         if a = STRING_MAGIC_0 then Some []
         else if a = STRING_MAGIC_1 then Some (extract_zap_string x 1)
         else if a = STRING_MAGIC_2 then Some (extract_zap_string x 2)
         else Some (extract_zap_string x 3))
      else extract_data_storage_string s x)"

definition char_of_zap :: "ipointer \<Rightarrow> long" where
  "char_of_zap x = (let i = get_zap_dataB x in if i AND 0x8000 \<noteq> 0 then i OR NOT 0xFFFF else i)"

text \<open>
  The search of \<open>make_symbol\<close> through the keyword list: it stops at the first entry whose
  spelling is \<open>val\<close>, or at NIL.
\<close>

partial_function (option) keyword_search :: "machine \<Rightarrow> string \<Rightarrow> ipointer \<Rightarrow> ipointer option" where
  "keyword_search s val p =
     (if p = NIL then Some p
      else case symbol_of s (car s p) of
             None \<Rightarrow> None
           | Some w \<Rightarrow> if w = val then Some p else keyword_search s val (cdr s p))"

text \<open>
  \<open>make_symbol\<close> of the empty string violates the assertion \<open>i != 0\<close> and returns an
  uninitialised pointer; the model has no result for it.
\<close>

definition make_symbol :: "string \<Rightarrow> ipointer M" where
  "make_symbol val0 s =
     (let val = cstr val0; i = length val in
      if i \<le> 3 then
        (if i = 0 then None else ret (zap_chars SYM_MAGIC_1 SYM_MAGIC_2 SYM_MAGIC_3 val) s)
      else
        (case keyword_search s val (keyword_pointer s) of
           None \<Rightarrow> None
         | Some p \<Rightarrow>
             if p = NIL
             then bnd (new_storage (of_nat (i + 1))) (\<lambda>p. ret p \<circ> set_data_storage_symbol p val) s
             else ret (car s p) s))"

definition make_string :: "string \<Rightarrow> ipointer M" where
  "make_string val0 s =
     (let val = cstr val0; i = length val in
      if i = 0 then ret (set_zap_special (set_zap_type 0 STRING_MAGIC_0)) s
      else if i \<le> 3 then ret (zap_chars STRING_MAGIC_1 STRING_MAGIC_2 STRING_MAGIC_3 val) s
      else bnd (new_storage (of_nat (i + 1))) (\<lambda>p. ret p \<circ> set_data_storage_string p val) s)"

definition make_int :: "long \<Rightarrow> ipointer M" where
  "make_int val s =
     (if sint val \<le> 0x7FFF \<and> - 0x8000 \<le> sint val
      then ret (set_zap_special (set_zap_dataB (set_zap_type 0 SHORT_MAGIC) val)) s
      else bnd (new_storage 4) (\<lambda>p. ret p \<circ> set_data_storage_integer p val) s)"

subsection \<open>Type queries\<close>

definition number_p :: "machine \<Rightarrow> ipointer \<Rightarrow> bool" where
  "number_p s x =
     (if special_p x then get_zap_type x = SHORT_MAGIC
      else if storage_p s x then get_typedesc s x = INTEGER_STORAGE
      else False)"

definition integer_p :: "machine \<Rightarrow> ipointer \<Rightarrow> bool" where
  "integer_p s x =
     (if special_p x then get_zap_type x = SHORT_MAGIC
      else if storage_p s x then get_typedesc s x = INTEGER_STORAGE
      else False)"

definition string_p :: "machine \<Rightarrow> ipointer \<Rightarrow> bool" where
  "string_p s x =
     (if special_p x then
        (let a = get_zap_type x in
         a = STRING_MAGIC_0 \<or> a = STRING_MAGIC_1 \<or> a = STRING_MAGIC_2 \<or> a = STRING_MAGIC_3)
      else if storage_p s x then get_typedesc s x = STRING_STORAGE
      else False)"

definition symbol_p :: "machine \<Rightarrow> ipointer \<Rightarrow> bool" where
  "symbol_p s x =
     (if special_p x then
        (let a = get_zap_type x in a = SYM_MAGIC_1 \<or> a = SYM_MAGIC_2 \<or> a = SYM_MAGIC_3)
      else if storage_p s x then get_typedesc s x = SYMBOL_STORAGE
      else False)"

definition char_p :: "ipointer \<Rightarrow> bool" where
  "char_p x = (if special_p x then get_zap_type x = CHAR_MAGIC else False)"

definition bool_p :: "ipointer \<Rightarrow> bool" where
  "bool_p x = (x = true_zap \<or> x = false_zap)"

subsection \<open>Comparison and reserved words\<close>

definition equal_p :: "machine \<Rightarrow> ipointer \<Rightarrow> ipointer \<Rightarrow> bool option" where
  "equal_p s a b =
     (if a = b then Some True
      else if storage_p s a \<and> storage_p s b then
        (let i = get_typedesc s a; j = get_typedesc s b in
         if i \<noteq> j then Some False
         else if i = INTEGER_STORAGE then
           Some (extract_data_storage_integer s a = extract_data_storage_integer s b)
         else if i = STRING_STORAGE then
           Option.bind (extract_data_storage_string s a) (\<lambda>x.
           Option.bind (extract_data_storage_string s b) (\<lambda>y. Some (x = y)))
         else if i = SYMBOL_STORAGE then
           Option.bind (extract_data_storage_symbol s a) (\<lambda>x.
           Option.bind (extract_data_storage_symbol s b) (\<lambda>y. Some (x = y)))
         else Some False)
      else Some False)"

partial_function (option) reserved_loop :: "machine \<Rightarrow> ipointer \<Rightarrow> ipointer \<Rightarrow> bool option" where
  "reserved_loop s cur p =
     (if p = NIL then Some False
      else case equal_p s cur (car s p) of
             None \<Rightarrow> None
           | Some e \<Rightarrow> if e then Some True else reserved_loop s cur (cdr s p))"

definition reserved_p :: "machine \<Rightarrow> ipointer \<Rightarrow> bool option" where
  "reserved_p s cur = reserved_loop s cur (keyword_pointer s)"


section \<open>Auxiliary procedures (HELP.C)\<close>

text \<open>Reading the state, and a call that may not return, inside a sequence of calls.\<close>

definition gets :: "(machine \<Rightarrow> 'a) \<Rightarrow> 'a M" where
  "gets f s = Some (Normal (f s) s)"

definition opt :: "(machine \<Rightarrow> 'a option) \<Rightarrow> 'a M" where
  "opt f s = (case f s of None \<Rightarrow> None | Some x \<Rightarrow> Some (Normal x s))"

text \<open>The common error exit: a message, the offending value, and the jump.\<close>

definition raise_with :: "string \<Rightarrow> ipointer \<Rightarrow> 'a M" where
  "raise_with msg v s = goto_recoverable_error (write_call v (printf msg s))"

subsection \<open>Expressions\<close>

definition operator :: "machine \<Rightarrow> ipointer \<Rightarrow> ipointer" where
  "operator s cur = car s cur"

definition operands :: "machine \<Rightarrow> ipointer \<Rightarrow> ipointer" where
  "operands s cur = cdr s cur"

definition first_arg :: "machine \<Rightarrow> ipointer \<Rightarrow> ipointer" where
  "first_arg s cur = car s (cdr s cur)"

definition second_arg :: "machine \<Rightarrow> ipointer \<Rightarrow> ipointer" where
  "second_arg s cur = car s (cdr s (cdr s cur))"

definition third_arg :: "machine \<Rightarrow> ipointer \<Rightarrow> ipointer" where
  "third_arg s cur = car s (cdr s (cdr s (cdr s cur)))"

partial_function (option) length_loop :: "machine \<Rightarrow> ipointer \<Rightarrow> nat \<Rightarrow> nat option" where
  "length_loop s cur i = (if cur \<noteq> NIL then length_loop s (cdr s cur) (i + 1) else Some i)"

definition length_c :: "machine \<Rightarrow> ipointer \<Rightarrow> nat option" where
  "length_c s cur = length_loop s cur 0"

definition cons :: "ipointer \<Rightarrow> ipointer \<Rightarrow> ipointer M" where
  "cons a b = bnd new_cons (\<lambda>p1 s. ret p1 (set_cdr p1 b (set_car p1 a s)))"

definition adjoin_binding :: "ipointer \<Rightarrow> ipointer \<Rightarrow> ipointer M" where
  "adjoin_binding binding frame = bnd new_cons (\<lambda>p1 s. ret p1 (set_car p1 binding (set_cdr p1 frame s)))"

definition binding_variable :: "machine \<Rightarrow> ipointer \<Rightarrow> ipointer" where
  "binding_variable s cur = car s cur"

definition binding_value :: "machine \<Rightarrow> ipointer \<Rightarrow> ipointer" where
  "binding_value s cur = cdr s cur"

subsection \<open>Environments and frames\<close>

definition first_frame :: "machine \<Rightarrow> ipointer \<Rightarrow> ipointer" where
  "first_frame s cur = cdr s cur"

definition parent :: "machine \<Rightarrow> ipointer \<Rightarrow> ipointer" where
  "parent s cur = car s cur"

definition first_binding :: "machine \<Rightarrow> ipointer \<Rightarrow> ipointer" where
  "first_binding s cur = car s cur"

definition rest_bindings :: "machine \<Rightarrow> ipointer \<Rightarrow> ipointer" where
  "rest_bindings s cur = cdr s cur"

partial_function (option) binding_in_frame_loop :: "machine \<Rightarrow> ipointer \<Rightarrow> ipointer \<Rightarrow> ipointer \<Rightarrow> ipointer option" where
  "binding_in_frame_loop s var frame p1 =
     (if frame \<noteq> NIL \<and> p1 = NIL then
        (case equal_p s var (binding_variable s (first_binding s frame)) of
           None \<Rightarrow> None
         | Some e \<Rightarrow>
             if e then binding_in_frame_loop s var frame (first_binding s frame)
             else binding_in_frame_loop s var (rest_bindings s frame) p1)
      else Some p1)"

definition binding_in_frame :: "machine \<Rightarrow> ipointer \<Rightarrow> ipointer \<Rightarrow> ipointer option" where
  "binding_in_frame s var frame = binding_in_frame_loop s var frame NIL"

partial_function (option) binding_in_env_loop :: "machine \<Rightarrow> ipointer \<Rightarrow> ipointer \<Rightarrow> ipointer \<Rightarrow> ipointer option" where
  "binding_in_env_loop s var env p1 =
     (if env \<noteq> NIL \<and> p1 = NIL then
        (case binding_in_frame s var (first_frame s env) of
           None \<Rightarrow> None
         | Some p \<Rightarrow> binding_in_env_loop s var (parent s env) p)
      else Some p1)"

definition binding_in_env :: "machine \<Rightarrow> ipointer \<Rightarrow> ipointer \<Rightarrow> ipointer option" where
  "binding_in_env s var env = binding_in_env_loop s var env NIL"

text \<open>The \<open>while\<close> loop of \<open>make_frame\<close>: \<open>end\<close>, \<open>vars\<close> and \<open>vals\<close> when it is left.\<close>

partial_function (option) make_frame_loop :: "ipointer \<Rightarrow> ipointer \<Rightarrow> ipointer \<Rightarrow> (ipointer \<times> ipointer \<times> ipointer) M" where
  "make_frame_loop e vars vals s =
     (if cbox_p s vars \<and> cbox_p s vals then
        bnd (cons NIL NIL) (\<lambda>c s1.
          let s2 = set_cdr e c s1; e' = cdr s2 e in
          bnd (cons (car s2 vars) (car s2 vals)) (\<lambda>b s3.
            let s4 = set_car e' b s3 in
            make_frame_loop e' (cdr s4 vars) (cdr s4 vals) s4) s2) s
      else ret (e, vars, vals) s)"

definition make_frame_mismatch :: "string \<Rightarrow> ipointer \<Rightarrow> ipointer \<Rightarrow> 'a M" where
  "make_frame_mismatch msg vars vals s =
     goto_recoverable_error
       (write_call vals (printf ''   Values    are: ''
         (write_call vars (printf ''   Variables are: '' (printf msg s)))))"

definition make_frame :: "ipointer \<Rightarrow> ipointer \<Rightarrow> ipointer M" where
  "make_frame vars vals s =
     (if symbol_p s vars then
        bnd (cons vars vals) (\<lambda>p.
        bnd (push_pointer p) (\<lambda>_.
        bnd (adjoin_binding p NIL) (\<lambda>p.
        bnd pop_pointer (\<lambda>_. ret p)))) s
      else if cbox_p s vars \<and> cbox_p s vals then
        bnd (cons (car s vars) (car s vals)) (\<lambda>p0 s1.
          let vars1 = cdr s1 vars; vals1 = cdr s1 vals in
          bnd (push_pointer p0) (\<lambda>_.
          bnd (cons p0 NIL) (\<lambda>p.
          bnd pop_pointer (\<lambda>_.
          bnd (push_pointer p) (\<lambda>_.
          bnd (make_frame_loop p vars1 vals1) (\<lambda>(e, vars2, vals2).
          bnd (\<lambda>s2.
            if symbol_p s2 vars2 then
              bnd (cons NIL NIL) (\<lambda>c s3.
                let s4 = set_cdr e c s3; e' = cdr s4 e in
                bnd (cons vars2 vals2) (\<lambda>b. upd (set_car e' b)) s4) s2
            else if vars2 \<noteq> NIL \<or> vals2 \<noteq> NIL then
              make_frame_mismatch ''RUNTIME-ERROR: mismatch during make-frame().'' vars2 vals2 s2
            else ret () s2) (\<lambda>_.
          bnd pop_pointer (\<lambda>_. ret p))))))) s1) s
      else make_frame_mismatch ''RUNTIME-ERROR: problem arose during make-frame().'' vars vals s)"

definition set_first_frame_w :: "ipointer \<Rightarrow> ipointer \<Rightarrow> machine \<Rightarrow> machine" where
  "set_first_frame_w env newframe s = set_cdr env newframe s"

definition define_variable_w :: "ipointer \<Rightarrow> ipointer \<Rightarrow> ipointer \<Rightarrow> unit M" where
  "define_variable_w var val env =
     bnd (cons var val) (\<lambda>p.
     bnd (push_pointer p) (\<lambda>_.
     bnd (\<lambda>s. adjoin_binding p (first_frame s env) s) (\<lambda>p.
     bnd pop_pointer (\<lambda>_.
     upd (set_hint_environment env \<circ> set_first_frame_w env p)))))"

definition set_variable_w :: "ipointer \<Rightarrow> ipointer \<Rightarrow> ipointer \<Rightarrow> unit M" where
  "set_variable_w var val env =
     bnd (opt (\<lambda>s. binding_in_env s var env)) (\<lambda>p.
       if p = NIL
       then raise_with ''RUNTIME-ERROR: unable to modify undefined variable!'' var
       else upd (set_cdr p val))"

definition extend_environment :: "ipointer \<Rightarrow> ipointer \<Rightarrow> ipointer \<Rightarrow> ipointer M" where
  "extend_environment vars vals base_env =
     (if vars = NIL \<and> vals = NIL then ret base_env
      else
        bnd (make_frame vars vals) (\<lambda>p1.
        bnd (push_pointer p1) (\<lambda>_.
        bnd (cons base_env p1) (\<lambda>p1.
        bnd (upd (set_hint_environment p1)) (\<lambda>_.
        bnd pop_pointer (\<lambda>_. ret p1))))))"

subsection \<open>Procedures\<close>

definition proc_env :: "machine \<Rightarrow> ipointer \<Rightarrow> ipointer" where
  "proc_env s cur = cdr s cur"

definition proc_text :: "machine \<Rightarrow> ipointer \<Rightarrow> ipointer" where
  "proc_text s cur = car s cur"

definition proc_body :: "machine \<Rightarrow> ipointer \<Rightarrow> ipointer" where
  "proc_body s cur = cdr s (cdr s (car s cur))"

definition proc_params :: "machine \<Rightarrow> ipointer \<Rightarrow> ipointer" where
  "proc_params s cur = car s (cdr s (car s cur))"

subsection \<open>Syntax checks\<close>

partial_function (option) list_p :: "machine \<Rightarrow> ipointer \<Rightarrow> bool option" where
  "list_p s cur =
     (if cur \<noteq> NIL then (if cbox_p s cur then list_p s (cdr s cur) else Some False)
      else Some True)"

text \<open>
  The loop shared by \<open>symbol_list_p\<close> and \<open>symbol_compound_p\<close>: \<open>res\<close> and \<open>cur\<close> when it
  is left.
\<close>

partial_function (option) symbol_chain :: "machine \<Rightarrow> ipointer \<Rightarrow> (bool \<times> ipointer) option" where
  "symbol_chain s cur =
     (if cur \<noteq> NIL then
        (if cbox_p s cur \<and> symbol_p s (car s cur) then symbol_chain s (cdr s cur)
         else Some (False, cur))
      else Some (True, cur))"

definition symbol_list_p :: "machine \<Rightarrow> ipointer \<Rightarrow> bool option" where
  "symbol_list_p s cur = map_option fst (symbol_chain s cur)"

definition symbol_compound_p :: "machine \<Rightarrow> ipointer \<Rightarrow> bool option" where
  "symbol_compound_p s cur = map_option (\<lambda>(res, cur'). res \<or> symbol_p s cur') (symbol_chain s cur)"

text \<open>
  \<open>list_of_clauses_p\<close>: the condition of the \<open>if\<close> is evaluated left to right, so
  \<open>list_p\<close> and \<open>length\<close> run only when the tests before them hold.
\<close>

definition clause_ok :: "machine \<Rightarrow> ipointer \<Rightarrow> nat \<Rightarrow> bool option" where
  "clause_ok s cur len =
     (if cbox_p s cur \<and> car s cur \<noteq> NIL then
        Option.bind (list_p s (car s cur)) (\<lambda>l.
          if l then
            (if car s (car s cur) \<noteq> zap s ''else'' then Some True
             else if cdr s cur = NIL \<and> len \<noteq> 0
                  then Option.bind (length_c s (car s cur)) (\<lambda>n. Some (n \<ge> 2))
                  else Some False)
          else Some False)
      else Some False)"

partial_function (option) list_of_clauses_loop :: "machine \<Rightarrow> ipointer \<Rightarrow> nat \<Rightarrow> bool option" where
  "list_of_clauses_loop s cur len =
     (if cur \<noteq> NIL then
        (case clause_ok s cur len of
           None \<Rightarrow> None
         | Some ok \<Rightarrow> if ok then list_of_clauses_loop s (cdr s cur) (len + 1) else Some False)
      else Some True)"

definition list_of_clauses_p :: "machine \<Rightarrow> ipointer \<Rightarrow> bool option" where
  "list_of_clauses_p s cur = list_of_clauses_loop s cur 0"

partial_function (option) assoc_list_p :: "machine \<Rightarrow> ipointer \<Rightarrow> bool option" where
  "assoc_list_p s cur =
     (if cur \<noteq> NIL then
        (if cbox_p s cur then
           (let a = car s cur in
            if cbox_p s a \<and> symbol_p s (car s a) then
              (let a' = cdr s a in
               if cbox_p s a' \<and> cdr s a' = NIL then assoc_list_p s (cdr s cur) else Some False)
            else Some False)
         else Some False)
      else Some True)"

text \<open>The inner loop of \<open>unique_vars_p\<close>: \<open>cur\<close> when it is left.\<close>

partial_function (option) unique_scan :: "machine \<Rightarrow> ipointer \<Rightarrow> ipointer \<Rightarrow> ipointer option" where
  "unique_scan s x cur =
     (if cbox_p s cur then
        (case equal_p s x (car s cur) of
           None \<Rightarrow> None
         | Some e \<Rightarrow> if e then Some cur else unique_scan s x (cdr s cur))
      else Some cur)"

partial_function (option) unique_vars_loop :: "machine \<Rightarrow> ipointer \<Rightarrow> bool \<Rightarrow> bool option" where
  "unique_vars_loop s vars res =
     (if cbox_p s vars \<and> res then
        (let x = car s vars; vars' = cdr s vars in
         case unique_scan s x vars' of
           None \<Rightarrow> None
         | Some cur \<Rightarrow>
             if symbol_p s cur then
               (case equal_p s x cur of
                  None \<Rightarrow> None
                | Some e \<Rightarrow> unique_vars_loop s vars' (\<not> e))
             else if cbox_p s cur then unique_vars_loop s vars' False
             else unique_vars_loop s vars' res)
      else Some res)"

definition unique_vars_p :: "machine \<Rightarrow> ipointer \<Rightarrow> bool option" where
  "unique_vars_p s vars = (if cbox_p s vars then unique_vars_loop s vars True else Some True)"

subsection \<open>Syntax transformations\<close>

text \<open>The \<open>while\<close> loop of \<open>separate_assoc\<close>, with \<open>varlast\<close> and \<open>vallast\<close>.\<close>

partial_function (option) separate_assoc_loop :: "ipointer \<Rightarrow> ipointer \<Rightarrow> ipointer \<Rightarrow> unit M" where
  "separate_assoc_loop lst varlast vallast s =
     (if lst \<noteq> NIL then
        (let asc = car s lst in
         bnd new_cons (\<lambda>c s1.
           let s2 = set_cdr varlast c s1; varlast' = cdr s2 varlast;
               s2' = set_cdr varlast' NIL s2;
               s3 = set_car varlast' (car s2' asc) s2'
           in bnd new_cons (\<lambda>d s4.
                let s5 = set_cdr vallast d s4; vallast' = cdr s5 vallast;
                    s5' = set_cdr vallast' NIL s5;
                    s6 = set_car vallast' (car s5' (cdr s5' asc)) s5'
                in separate_assoc_loop (cdr s6 lst) varlast' vallast' s6) s3) s)
      else ret () s)"

definition separate_assoc :: "ipointer \<Rightarrow> ipointer M" where
  "separate_assoc lst =
     bnd (if lst \<noteq> NIL then
            bnd (gets (\<lambda>s. car s lst)) (\<lambda>asc.
            bnd new_cons (\<lambda>var.
            bnd (upd (set_cdr var NIL)) (\<lambda>_.
            bnd (gets (\<lambda>s. car s asc)) (\<lambda>a.
            bnd (upd (set_car var a)) (\<lambda>_.
            bnd (push_pointer var) (\<lambda>_.
            bnd new_cons (\<lambda>val.
            bnd (upd (set_cdr val NIL)) (\<lambda>_.
            bnd (gets (\<lambda>s. car s (cdr s asc))) (\<lambda>b.
            bnd (upd (set_car val b)) (\<lambda>_.
            bnd (push_pointer val) (\<lambda>_.
            bnd (gets (\<lambda>s. cdr s lst)) (\<lambda>lst'.
            separate_assoc_loop lst' var val))))))))))))
          else bnd (push_pointer NIL) (\<lambda>_. push_pointer NIL)) (\<lambda>_.
     bnd new_cons (\<lambda>asc.
     bnd pop_pointer (\<lambda>v.
     bnd (upd (set_cdr asc v)) (\<lambda>_.
     bnd pop_pointer (\<lambda>w.
     bnd (upd (set_car asc w)) (\<lambda>_. ret asc))))))"

text \<open>The part of \<open>clauses\<close> that builds \<open>((else third-arg))\<close> for an if-then-else.\<close>

definition clauses_else :: "ipointer \<Rightarrow> ipointer M" where
  "clauses_else expr =
     bnd new_cons (\<lambda>p.
     bnd (upd (set_cdr p NIL)) (\<lambda>_.
     bnd (gets (\<lambda>s. third_arg s expr)) (\<lambda>a.
     bnd (upd (set_car p a)) (\<lambda>_.
     bnd (push_pointer p) (\<lambda>_.
     bnd new_cons (\<lambda>p.
     bnd pop_pointer (\<lambda>v.
     bnd (upd (set_cdr p v)) (\<lambda>_.
     bnd (gets (\<lambda>s. zap s ''else'')) (\<lambda>e.
     bnd (upd (set_car p e)) (\<lambda>_.
     bnd (push_pointer p) (\<lambda>_.
     bnd new_cons (\<lambda>p.
     bnd (upd (set_cdr p NIL)) (\<lambda>_.
     bnd pop_pointer (\<lambda>v.
     bnd (upd (set_car p v)) (\<lambda>_. ret p)))))))))))))))"

definition clauses_if :: "ipointer \<Rightarrow> ipointer M" where
  "clauses_if expr =
     bnd new_cons (\<lambda>p.
     bnd (upd (set_cdr p NIL)) (\<lambda>_.
     bnd (gets (\<lambda>s. second_arg s expr)) (\<lambda>a.
     bnd (upd (set_car p a)) (\<lambda>_.
     bnd (push_pointer p) (\<lambda>_.
     bnd new_cons (\<lambda>p.
     bnd pop_pointer (\<lambda>v.
     bnd (upd (set_cdr p v)) (\<lambda>_.
     bnd (gets (\<lambda>s. first_arg s expr)) (\<lambda>a.
     bnd (upd (set_car p a)) (\<lambda>_.
     bnd (push_pointer p) (\<lambda>_.
     bnd (opt (\<lambda>s. length_c s expr)) (\<lambda>n.
     bnd (if n = 4 then clauses_else expr else ret NIL) (\<lambda>p.
     bnd (push_pointer p) (\<lambda>_.
     bnd new_cons (\<lambda>p.
     bnd pop_pointer (\<lambda>v.
     bnd (upd (set_cdr p v)) (\<lambda>_.
     bnd pop_pointer (\<lambda>w.
     bnd (upd (set_car p w)) (\<lambda>_. ret p)))))))))))))))))))"

definition clauses :: "ipointer \<Rightarrow> ipointer M" where
  "clauses expr s =
     (if operator s expr = zap s ''if'' then clauses_if expr s
      else ret (operands s expr) s)"


section \<open>Built-in procedures\<close>

text \<open>
  The loops of \<open>+\<close>, \<open>*\<close>, \<open>-\<close> and \<open>/\<close> over the argument list (the \<open>do ... while\<close>
  loops of \<open>-\<close> and \<open>/\<close> are entered with a non-empty list, and so are the same loop),
  and the \<open>do ... while\<close> loop of the five comparisons.
\<close>

partial_function (option) arith_loop :: "('a \<Rightarrow> long \<Rightarrow> 'a) \<Rightarrow> string \<Rightarrow> ipointer \<Rightarrow> 'a \<Rightarrow> 'a M" where
  "arith_loop f msg args x s =
     (if args \<noteq> NIL then
        (if syntaxcheck s \<and> \<not> integer_p s (car s args) then raise_with msg args s
         else arith_loop f msg (cdr s args) (f x (integer_of s (car s args))) s)
      else ret x s)"

partial_function (option) compare_loop :: "(long \<Rightarrow> long \<Rightarrow> bool) \<Rightarrow> string \<Rightarrow> ipointer \<Rightarrow> long \<Rightarrow> ipointer M" where
  "compare_loop r msg args x s =
     (let y = x in
      if syntaxcheck s \<and> \<not> integer_p s (car s args) then raise_with msg args s
      else
        (let x' = integer_of s (car s args); args' = cdr s args in
         if args' \<noteq> NIL \<and> r y x' then compare_loop r msg args' x' s
         else ret (if r y x' then true_zap else false_zap) s))"

definition compare_builtin :: "(long \<Rightarrow> long \<Rightarrow> bool) \<Rightarrow> string \<Rightarrow> ipointer \<Rightarrow> ipointer M" where
  "compare_builtin r msg args s =
     (if syntaxcheck s \<and> args \<noteq> NIL \<and> \<not> integer_p s (car s args) then raise_with msg args s
      else if args = NIL \<or> cdr s args = NIL then ret true_zap s
      else compare_loop r msg (cdr s args) (integer_of s (car s args)) s)"

subsection \<open>The doubles of \<open>/\<close>\<close>

text \<open>
  The source computes \<open>/\<close> in the type \<open>double\<close>: it converts each argument with
  \<open>(double)\<close>, divides, applies \<open>floor\<close> and converts back with \<open>(long int)\<close>. A double is
  modelled as an IEEE 754 binary64 value: a real number that the format represents, one of the
  two infinities, or a NaN. The two zeros are one value here: the sign of a zero decides a result
  only when the zero is a divisor, and every divisor of the source is the conversion of a long,
  whose zero is the positive one.

  \<open>round_to_double\<close> is rounding to nearest, ties to even, with 53 bits of precision and the
  least exponent -1022 (below it the spacing of the subnormal numbers stays \<open>2 powr -1074\<close>).
\<close>

datatype double = Finite real | PlusInf | MinusInf | NaN

definition round_half_even :: "real \<Rightarrow> int" where
  "round_half_even y =
     (let f = \<lfloor>y\<rfloor>; d = y - of_int f in
      if d < 1 / 2 then f else if 1 / 2 < d then f + 1 else if even f then f else f + 1)"

definition round_to_double :: "real \<Rightarrow> real" where
  "round_to_double x =
     (if x = 0 then 0
      else
        (let e = max \<lfloor>log 2 \<bar>x\<bar>\<rfloor> (- 1022) - 52 in
         of_int (round_half_even (x / 2 powr (of_int e))) * 2 powr (of_int e)))"

text \<open>A long has 32 bits, so that \<open>(double)\<close> of a long is exact.\<close>

definition double_of_long :: "long \<Rightarrow> double" where
  "double_of_long v = Finite (real_of_int (sint v))"

definition double_div :: "double \<Rightarrow> double \<Rightarrow> double" where
  "double_div a b =
     (case a of
        Finite x \<Rightarrow>
          (case b of
             Finite y \<Rightarrow>
               if y = 0 then (if x = 0 then NaN else if 0 < x then PlusInf else MinusInf)
               else
                 (let q = round_to_double (x / y) in
                  if 2 ^ 1024 \<le> \<bar>q\<bar> then (if 0 < q then PlusInf else MinusInf) else Finite q)
           | NaN \<Rightarrow> NaN
           | _ \<Rightarrow> Finite 0)
      | PlusInf \<Rightarrow>
          (case b of Finite y \<Rightarrow> if 0 \<le> y then PlusInf else MinusInf | _ \<Rightarrow> NaN)
      | MinusInf \<Rightarrow>
          (case b of Finite y \<Rightarrow> if 0 \<le> y then MinusInf else PlusInf | _ \<Rightarrow> NaN)
      | NaN \<Rightarrow> NaN)"

definition floor_double :: "double \<Rightarrow> double" where
  "floor_double a = (case a of Finite x \<Rightarrow> Finite (of_int \<lfloor>x\<rfloor>) | _ \<Rightarrow> a)"

text \<open>
  \<open>(long int)\<close> of a double drops the fraction. C leaves the conversion undefined when the
  result is no long, and for an infinity or a NaN; the machines of this program (the i486, whose
  conversion instruction stores the "integer indefinite" then) give the least long, and so does
  the model.
\<close>

definition long_of_double :: "double \<Rightarrow> long" where
  "long_of_double a =
     (case a of
        Finite x \<Rightarrow>
          (let t = (if 0 \<le> x then \<lfloor>x\<rfloor> else \<lceil>x\<rceil>) in
           if - (2 ^ 31) \<le> t \<and> t < 2 ^ 31 then word_of_int t else 0x80000000)
      | _ \<Rightarrow> 0x80000000)"

definition div_builtin :: "ipointer \<Rightarrow> ipointer M" where
  "div_builtin args s =
     (if syntaxcheck s \<and> args = NIL
      then goto_recoverable_error (printf ''SYNTAX-ERROR: missing argument for /.'' s)
      else if syntaxcheck s \<and> \<not> integer_p s (car s args)
      then raise_with ''SYNTAX-ERROR: illegal argument for /: '' args s
      else
        (let xf = double_of_long (integer_of s (car s args)) in
         if cdr s args = NIL
         then make_int (long_of_double (floor_double (double_div (Finite 1) xf))) s
         else bnd (arith_loop (\<lambda>xf v. double_div xf (double_of_long v))
                     ''SYNTAX-ERROR: illegal argument for /: '' (cdr s args) xf)
                  (\<lambda>xf. make_int (long_of_double (floor_double xf))) s))"

definition sub_builtin :: "ipointer \<Rightarrow> ipointer M" where
  "sub_builtin args s =
     (if syntaxcheck s \<and> args = NIL
      then goto_recoverable_error (printf ''SYNTAX-ERROR: missing argument for -.'' s)
      else if syntaxcheck s \<and> \<not> integer_p s (car s args)
      then raise_with ''SYNTAX-ERROR: illegal argument for -: '' args s
      else
        (let x = integer_of s (car s args) in
         if cdr s args = NIL then make_int (- x) s
         else bnd (arith_loop (\<lambda>x v. x - v) ''SYNTAX-ERROR: illegal argument for -: '' (cdr s args) x)
                  make_int s))"

text \<open>The branch of \<open>apply_builtin\<close> for a \<open>proc\<close> that is a special value.\<close>

definition apply_special :: "ipointer \<Rightarrow> ipointer \<Rightarrow> ipointer M" where
  "apply_special proc args s =
     (if proc = zap s ''car'' then
        (if syntaxcheck s \<and> (\<not> cbox_p s (car s args) \<or> cdr s args \<noteq> NIL)
         then raise_with ''SYNTAX-ERROR: bad args for car: '' args s
         else ret (car s (car s args)) s)
      else if proc = zap s ''cdr'' then
        (if syntaxcheck s \<and> (\<not> cbox_p s (car s args) \<or> cdr s args \<noteq> NIL)
         then raise_with ''SYNTAX-ERROR: bad args for cdr: '' args s
         else ret (cdr s (car s args)) s)
      else if proc = zap s ''+'' then
        bnd (arith_loop (\<lambda>x v. x + v) ''SYNTAX-ERROR: illegal argument for +: '' args 0) make_int s
      else if proc = zap s ''-'' then sub_builtin args s
      else if proc = zap s ''/'' then div_builtin args s
      else if proc = zap s ''*'' then
        bnd (arith_loop (\<lambda>x v. x * v) ''SYNTAX-ERROR: illegal argument for *: '' args 1) make_int s
      else if proc = zap s ''<'' then
        compare_builtin (\<lambda>y x. y <s x) ''SYNTAX-ERROR: illegal argument for <: '' args s
      else if proc = zap s ''<='' then
        compare_builtin (\<lambda>y x. y \<le>s x) ''SYNTAX-ERROR: illegal argument for <=: '' args s
      else if proc = zap s ''='' then
        compare_builtin (\<lambda>y x. y = x) ''SYNTAX-ERROR: illegal argument for ==: '' args s
      else if proc = zap s ''>'' then
        compare_builtin (\<lambda>y x. x <s y) ''SYNTAX-ERROR: illegal argument for >: '' args s
      else if proc = zap s ''>='' then
        compare_builtin (\<lambda>y x. x \<le>s y) ''SYNTAX-ERROR: illegal argument for >=: '' args s
      else if proc = zap s ''not'' then
        (if syntaxcheck s \<and> (args = NIL \<or> cdr s args \<noteq> NIL)
         then raise_with ''SYNTAX-ERROR: illegal argument for not: '' args s
         else ret (if car s args = false_zap then true_zap else false_zap) s)
      else if proc = zap s ''eq?'' then
        bnd (opt (\<lambda>s. if syntaxcheck s then length_c s args else Some 2)) (\<lambda>n s.
          if syntaxcheck s \<and> n \<noteq> 2
          then raise_with ''SYNTAX-ERROR: illegal args for eq?: '' args s
          else bnd (opt (\<lambda>s. equal_p s (car s args) (car s (cdr s args)))) (\<lambda>e. ret (make_bool e)) s) s
      else raise_with ''Application of unapplicable reserved word '' proc s)"

text \<open>\<open>apply_builtin2\<close>.\<close>

definition apply_builtin2 :: "ipointer \<Rightarrow> ipointer \<Rightarrow> ipointer M" where
  "apply_builtin2 proc args s =
     (if proc = zap s ''length'' then
        bnd (opt (\<lambda>s. if syntaxcheck s \<and> \<not> (args = NIL \<or> cdr s args \<noteq> NIL)
                       then list_p s (car s args) else Some True)) (\<lambda>l s.
          if syntaxcheck s \<and> (args = NIL \<or> cdr s args \<noteq> NIL \<or> \<not> l)
          then raise_with ''SYNTAX-ERROR: illegal argument for length: '' args s
          else bnd (opt (\<lambda>s. length_c s (car s args))) (\<lambda>n. make_int (of_nat n)) s) s
      else if proc = zap s ''list'' then ret args s
      else if proc = zap s ''newline'' then
        (if syntaxcheck s \<and> args \<noteq> NIL
         then raise_with ''SYNTAX-ERROR: illegal args for newline: '' args s
         else ret NIL (printf [CHR 0x0A] s))
      else if proc = zap s ''null?'' then
        (if syntaxcheck s \<and> (args = NIL \<or> cdr s args \<noteq> NIL)
         then raise_with ''SYNTAX-ERROR: illegal args for null?: '' args s
         else ret (make_bool (car s args = NIL)) s)
      else if proc = zap s ''number?'' then
        (if syntaxcheck s \<and> (args = NIL \<or> cdr s args \<noteq> NIL)
         then raise_with ''SYNTAX-ERROR: illegal args for number?: '' args s
         else ret (make_bool (number_p s (car s args))) s)
      else if proc = zap s ''odd?'' then
        (if syntaxcheck s \<and> (args = NIL \<or> cdr s args \<noteq> NIL \<or> \<not> integer_p s (car s args))
         then raise_with ''SYNTAX-ERROR: illegal args for odd?: '' args s
         else ret (make_bool (\<not> even_p (integer_of s (car s args)))) s)
      else if proc = zap s ''even?'' then
        (if syntaxcheck s \<and> (args = NIL \<or> cdr s args \<noteq> NIL \<or> \<not> integer_p s (car s args))
         then raise_with ''SYNTAX-ERROR: illegal args for even?: '' args s
         else ret (make_bool (even_p (integer_of s (car s args)))) s)
      else if proc = zap s ''pair?'' then
        (if syntaxcheck s \<and> (args = NIL \<or> cdr s args \<noteq> NIL)
         then raise_with ''SYNTAX-ERROR: illegal args for pair?: '' args s
         else ret (make_bool (cbox_p s (car s args))) s)
      else if proc = zap s ''garbagecollect'' then
        (if syntaxcheck s \<and> args \<noteq> NIL
         then raise_with ''SYNTAX-ERROR: illegal argument for garbagecollect: '' args s
         else bnd (opt garbage_collect) (\<lambda>s' _. ret NIL s') s)
      else if proc = zap s ''string?'' then
        (if syntaxcheck s \<and> (args = NIL \<or> cdr s args \<noteq> NIL)
         then raise_with ''SYNTAX-ERROR: illegal args for string?: '' args s
         else ret (make_bool (string_p s (car s args))) s)
      else if proc = zap s ''symbol?'' then
        (if syntaxcheck s \<and> (args = NIL \<or> cdr s args \<noteq> NIL)
         then raise_with ''SYNTAX-ERROR: illegal args for symbol?: '' args s
         else ret (make_bool (symbol_p s (car s args))) s)
      else if proc = zap s ''list?'' then
        (if syntaxcheck s \<and> (args = NIL \<or> cdr s args \<noteq> NIL)
         then raise_with ''SYNTAX-ERROR: illegal args for list?: '' args s
         else bnd (opt (\<lambda>s. list_p s (car s args))) (\<lambda>l. ret (make_bool l)) s)
      else if proc = zap s ''write'' then
        (if syntaxcheck s \<and> (args = NIL \<or> cdr s args \<noteq> NIL)
         then raise_with ''SYNTAX-ERROR: illegal args for write: '' args s
         else ret NIL (write_call (car s args) s))
      else if proc = zap s ''read'' then
        (if syntaxcheck s \<and> cdr s args \<noteq> 0
         then raise_with ''SYNTAX-ERROR: illegal args for read: '' args s
         else ret NIL (printf ''For later.'' s))
      else if proc = zap s ''set-car!'' then
        bnd (opt (\<lambda>s. if syntaxcheck s then length_c s args else Some 2)) (\<lambda>n s.
          if syntaxcheck s \<and> n \<noteq> 2
          then raise_with ''SYNTAX-ERROR: illegal args for set-car!: '' args s
          else ret (car s args) (set_car (car s args) (car s (cdr s args)) s)) s
      else if proc = zap s ''set-cdr!'' then
        bnd (opt (\<lambda>s. if syntaxcheck s then length_c s args else Some 2)) (\<lambda>n s.
          if syntaxcheck s \<and> n \<noteq> 2
          then raise_with ''SYNTAX-ERROR: illegal args for set-cdr!: '' args s
          else ret (car s args) (set_cdr (car s args) (car s (cdr s args)) s)) s
      else raise_with ''Application of unapplicable reserved word '' proc s)"

text \<open>
  The 28 composed accessors of \<open>apply_builtin1\<close>, in the order of its branches: the word,
  the word whose procedure is applied first, and whether \<open>car\<close> (or else \<open>cdr\<close>) is taken
  of that result.
\<close>

definition cxr_table :: "(string \<times> string \<times> bool) list" where
  "cxr_table =
    [(''cadr'', ''cdr'', True), (''cdar'', ''car'', False), (''cddr'', ''cdr'', False),
     (''caar'', ''car'', True),
     (''caaar'', ''caar'', True), (''caadr'', ''cadr'', True), (''cadar'', ''cdar'', True),
     (''caddr'', ''cddr'', True), (''cdaar'', ''caar'', False), (''cdadr'', ''cadr'', False),
     (''cddar'', ''cdar'', False), (''cdddr'', ''cddr'', False),
     (''caaaar'', ''caaar'', True), (''caaadr'', ''caadr'', True), (''caadar'', ''cadar'', True),
     (''caaddr'', ''caddr'', True), (''cadaar'', ''cdaar'', True), (''cadadr'', ''cdadr'', True),
     (''caddar'', ''cddar'', True), (''cadddr'', ''cdddr'', True),
     (''cdaaar'', ''caaar'', False), (''cdaadr'', ''caadr'', False), (''cdadar'', ''cadar'', False),
     (''cdaddr'', ''caddr'', False), (''cddaar'', ''cdaar'', False), (''cddadr'', ''cdadr'', False),
     (''cdddar'', ''cddar'', False), (''cddddr'', ''cdddr'', False)]"

definition gcstat_builtin :: "ipointer M" where
  "gcstat_builtin =
     bnd new_cons (\<lambda>sv.
     bnd (push_pointer sv) (\<lambda>_.
     bnd (gets stat_lstack_free) (\<lambda>n.
     bnd (make_int n) (\<lambda>i.
     bnd (upd (set_car sv i)) (\<lambda>_.
     bnd new_cons (\<lambda>sv.
     bnd pop_pointer (\<lambda>v.
     bnd (upd (set_cdr sv v)) (\<lambda>_.
     bnd (push_pointer sv) (\<lambda>_.
     bnd (gets stat_stack_free) (\<lambda>n.
     bnd (make_int n) (\<lambda>i.
     bnd (upd (set_car sv i)) (\<lambda>_.
     bnd new_cons (\<lambda>sv.
     bnd pop_pointer (\<lambda>v.
     bnd (upd (set_cdr sv v)) (\<lambda>_.
     bnd (push_pointer sv) (\<lambda>_.
     bnd (opt stat_storage_free) (\<lambda>n.
     bnd (make_int n) (\<lambda>i.
     bnd (upd (set_car sv i)) (\<lambda>_.
     bnd new_cons (\<lambda>sv.
     bnd pop_pointer (\<lambda>v.
     bnd (upd (set_cdr sv v)) (\<lambda>_.
     bnd (push_pointer sv) (\<lambda>_.
     bnd (opt stat_cbox_free) (\<lambda>n.
     bnd (make_int n) (\<lambda>i.
     bnd (upd (set_car sv i)) (\<lambda>_.
     pop_pointer))))))))))))))))))))))))))"

definition statistics_mem :: "unit M" where
  "statistics_mem =
     bnd (opt stat_cbox_free) (\<lambda>_.
     bnd (opt stat_storage_free) (\<lambda>_.
     bnd (opt stat_storage_blocs) (\<lambda>_.
     upd (printf ''  Free cons-boxes, free longints in storage, in stack, places in lstack''))))"

text \<open>The branches of \<open>apply_builtin1\<close> after the composed accessors.\<close>

definition apply_builtin1_rest :: "ipointer \<Rightarrow> ipointer \<Rightarrow> ipointer M" where
  "apply_builtin1_rest proc args s =
     (if proc = zap s ''gcstat'' then
        (if syntaxcheck s \<and> args \<noteq> NIL
         then raise_with ''SYNTAX-ERROR: illegal argument for gcstat: '' args s
         else gcstat_builtin s)
      else if proc = zap s ''gcstatwrite'' then
        (if syntaxcheck s \<and> args \<noteq> NIL
         then raise_with ''SYNTAX-ERROR: illegal argument for gcstatwrite: '' args s
         else bnd statistics_mem (\<lambda>_. ret NIL) s)
      else if proc = zap s ''synchecktoggle'' then
        (if syntaxcheck s \<and> args \<noteq> NIL
         then raise_with ''SYNTAX-ERROR: illegal argument for synchecktoggle: '' args s
         else (let s' = s\<lparr>syntaxcheck := \<not> syntaxcheck s\<rparr>
               in ret (make_bool (\<not> syntaxcheck s')) s'))
      else if proc = zap s ''cons'' then
        bnd (opt (\<lambda>s. if syntaxcheck s then length_c s args else Some 2)) (\<lambda>n s.
          if syntaxcheck s \<and> n \<noteq> 2
          then raise_with ''SYNTAX-ERROR: illegal argument for cons: '' args s
          else cons (car s args) (car s (cdr s args)) s) s
      else if proc = zap s ''error'' then
        bnd (opt (\<lambda>s. if syntaxcheck s then length_c s args else Some 0)) (\<lambda>n s.
          if syntaxcheck s \<and> n > 1
          then raise_with ''SYNTAX-ERROR: illegal argument for error: '' args s
          else goto_recoverable_error
                 (if args \<noteq> NIL then write_call (car s args) (printf ''micro-eval error: '' s)
                  else printf [CHR 0x0A] (printf ''micro-eval error: '' s))) s
      else if proc = zap s ''integer?'' then
        (if syntaxcheck s \<and> (args = NIL \<or> cdr s args \<noteq> NIL)
         then raise_with ''SYNTAX-ERROR: illegal argument for integer?: '' args s
         else ret (make_bool (integer_p s (car s args))) s)
      else apply_builtin2 proc args s)"

text \<open>
  \<open>apply_builtin\<close>, with the composed accessors of \<open>apply_builtin1\<close>, which call it again.
\<close>

partial_function (option) apply_builtin :: "ipointer \<Rightarrow> ipointer \<Rightarrow> ipointer M" where
  "apply_builtin proc args s =
     (if special_p proc then apply_special proc args s
      else
        (case find (\<lambda>(w, inner, outer_car). proc = zap s w) cxr_table of
           Some (w, inner, outer_car) \<Rightarrow>
             bnd (apply_builtin (zap s inner) args) (\<lambda>sv s1.
               if syntaxcheck s1 \<and> \<not> cbox_p s1 sv
               then raise_with (''SYNTAX-ERROR: bad args for '' @ w @ '': '') args s1
               else ret (if outer_car then car s1 sv else cdr s1 sv) s1) s
         | None \<Rightarrow> apply_builtin1_rest proc args s))"

section \<open>The evaluator (MAIN.C)\<close>

subsection \<open>Labels\<close>

definition START_LABEL :: uchar where "START_LABEL = 0"
definition SELF_EVAL_P_LABEL :: uchar where "SELF_EVAL_P_LABEL = 1"
definition VARIABLE_P_LABEL :: uchar where "VARIABLE_P_LABEL = 2"
definition FORGET_ABOUT_IT_LABEL :: uchar where "FORGET_ABOUT_IT_LABEL = 3"
definition QUOTED_P_LABEL :: uchar where "QUOTED_P_LABEL = 4"
definition SP_DEFINITION_P_LABEL :: uchar where "SP_DEFINITION_P_LABEL = 5"
definition LET_P_LABEL :: uchar where "LET_P_LABEL = 6"
definition AND_P_LABEL :: uchar where "AND_P_LABEL = 7"
definition OR_P_LABEL :: uchar where "OR_P_LABEL = 8"
definition ASSIGNMENT_P_LABEL :: uchar where "ASSIGNMENT_P_LABEL = 9"
definition CONDITIONAL_P_LABEL :: uchar where "CONDITIONAL_P_LABEL = 10"
definition LAMBDA_P_LABEL :: uchar where "LAMBDA_P_LABEL = 11"
definition APPLICATION_P_LABEL :: uchar where "APPLICATION_P_LABEL = 12"
definition UNKNOWN_EXPR_LABEL :: uchar where "UNKNOWN_EXPR_LABEL = 13"
definition LIST_OF_VALUES_LABEL :: uchar where "LIST_OF_VALUES_LABEL = 14"
definition LIST_OF_VALUES_CONT_LABEL :: uchar where "LIST_OF_VALUES_CONT_LABEL = 15"
definition LIST_OF_VALUES_COLLECT_START_LABEL :: uchar where "LIST_OF_VALUES_COLLECT_START_LABEL = 16"
definition LIST_OF_VALUES_COLLECT_LABEL :: uchar where "LIST_OF_VALUES_COLLECT_LABEL = 17"
definition LIST_OF_VALUES_COLLECT_STOP_LABEL :: uchar where "LIST_OF_VALUES_COLLECT_STOP_LABEL = 18"
definition MICRO_APPLY_LABEL :: uchar where "MICRO_APPLY_LABEL = 19"
definition DEFINITION_CONT_LABEL :: uchar where "DEFINITION_CONT_LABEL = 20"
definition AND_CONT_LABEL :: uchar where "AND_CONT_LABEL = 21"
definition OR_CONT_LABEL :: uchar where "OR_CONT_LABEL = 22"
definition ASSIGNMENT_CONT_LABEL :: uchar where "ASSIGNMENT_CONT_LABEL = 23"
definition CONDITIONAL_CONT_LABEL :: uchar where "CONDITIONAL_CONT_LABEL = 24"
definition EVAL_SEQUENCE_LABEL :: uchar where "EVAL_SEQUENCE_LABEL = 25"
definition EVAL_SEQUENCE_CONT_LABEL :: uchar where "EVAL_SEQUENCE_CONT_LABEL = 26"
definition ERROR_LABEL :: uchar where "ERROR_LABEL = 27"
definition END_LABEL :: uchar where "END_LABEL = 28"

lemmas label_defs =
  START_LABEL_def SELF_EVAL_P_LABEL_def VARIABLE_P_LABEL_def FORGET_ABOUT_IT_LABEL_def
  QUOTED_P_LABEL_def SP_DEFINITION_P_LABEL_def LET_P_LABEL_def AND_P_LABEL_def OR_P_LABEL_def
  ASSIGNMENT_P_LABEL_def CONDITIONAL_P_LABEL_def LAMBDA_P_LABEL_def APPLICATION_P_LABEL_def
  UNKNOWN_EXPR_LABEL_def LIST_OF_VALUES_LABEL_def LIST_OF_VALUES_CONT_LABEL_def
  LIST_OF_VALUES_COLLECT_START_LABEL_def LIST_OF_VALUES_COLLECT_LABEL_def
  LIST_OF_VALUES_COLLECT_STOP_LABEL_def MICRO_APPLY_LABEL_def DEFINITION_CONT_LABEL_def
  AND_CONT_LABEL_def OR_CONT_LABEL_def ASSIGNMENT_CONT_LABEL_def CONDITIONAL_CONT_LABEL_def
  EVAL_SEQUENCE_LABEL_def EVAL_SEQUENCE_CONT_LABEL_def ERROR_LABEL_def END_LABEL_def

subsection \<open>Statements of the loop body\<close>

text \<open>\<open>cont_reg = L; break\<close>, \<open>cont_reg = pop_label(); break\<close>, and the error exit of a
  state: a message, the expression, \<open>cont_reg = ERROR_LABEL; break\<close>.\<close>

definition jump :: "uchar \<Rightarrow> unit M" where
  "jump l = upd (\<lambda>s. s\<lparr>cont_reg := l\<rparr>)"

definition return_to_caller :: "unit M" where
  "return_to_caller = bnd pop_label jump"

definition eval_error :: "string \<Rightarrow> unit M" where
  "eval_error msg = upd (\<lambda>s. (write_call (exp_reg s) (printf msg s))\<lparr>cont_reg := ERROR_LABEL\<rparr>)"

text \<open>\<open>!list_p(e) || length(e) ...\<close>: \<open>None\<close> when \<open>e\<close> is no list, else its length.\<close>

definition proper_length :: "ipointer \<Rightarrow> nat option M" where
  "proper_length e =
     bnd (opt (\<lambda>s. list_p s e)) (\<lambda>l.
       if l then bnd (opt (\<lambda>s. length_c s e)) (\<lambda>n. ret (Some n)) else ret None)"

text \<open>\<open>push_label(L); push_pointer(env_reg); push_pointer(cdr(exp_reg))\<close>, when the list in
  \<open>exp_reg\<close> has more than one element; then \<open>exp_reg = car(exp_reg); cont_reg = START_LABEL\<close>.
  This is the common tail of the states that walk a list of expressions.\<close>

definition eval_first_of :: "uchar \<Rightarrow> unit M" where
  "eval_first_of l =
     bnd (\<lambda>s. if cdr s (exp_reg s) \<noteq> NIL
               then bnd (push_label l) (\<lambda>_.
                    bnd (push_pointer (env_reg s)) (\<lambda>_.
                    push_pointer (cdr s (exp_reg s)))) s
               else ret () s) (\<lambda>_.
     bnd (upd (\<lambda>s. s\<lparr>exp_reg := car s (exp_reg s)\<rparr>)) (\<lambda>_.
     jump START_LABEL))"

subsection \<open>First-level analysis and dispatch\<close>

definition unknown_expr :: "unit M" where
  "unknown_expr = eval_error ''RUNTIME ERROR: unknown expression ''"

definition application_p :: "unit M" where
  "application_p =
     bnd (opt (\<lambda>s. if syntaxcheck s then list_p s (exp_reg s) else Some True)) (\<lambda>l s.
       if \<not> syntaxcheck s \<or> l then
         bnd (push_pointer (env_reg s)) (\<lambda>_.
         bnd (push_pointer (operands s (exp_reg s))) (\<lambda>_.
         bnd (push_label LIST_OF_VALUES_LABEL) (\<lambda>_.
         bnd (upd (\<lambda>s. s\<lparr>exp_reg := car s (exp_reg s)\<rparr>)) (\<lambda>_.
         jump START_LABEL)))) s
       else unknown_expr s)"

definition lambda_p :: "unit M" where
  "lambda_p s =
     (if oper s = zap s ''lambda'' then
        bnd (if syntaxcheck s then proper_length (exp_reg s) else ret (Some 3)) (\<lambda>n.
        bnd (opt (\<lambda>s. if syntaxcheck s \<and> n \<noteq> None \<and> \<not> the n < 3
                       then symbol_compound_p s (first_arg s (exp_reg s)) else Some True)) (\<lambda>c.
        bnd (opt (\<lambda>s. if syntaxcheck s \<and> n \<noteq> None \<and> \<not> the n < 3 \<and> c
                       then unique_vars_p s (first_arg s (exp_reg s)) else Some True)) (\<lambda>u s.
          if syntaxcheck s \<and> (n = None \<or> the n < 3 \<or> \<not> c \<or> \<not> u)
          then eval_error ''SYNTAX ERROR: incorrect usage for lambda in '' s
          else
            bnd new_cons (\<lambda>p.
            bnd (upd (\<lambda>s. set_hint_procedure p
                   (set_cdr p (env_reg s) (set_car p (exp_reg s) (s\<lparr>val_reg := p\<rparr>))))) (\<lambda>_.
            return_to_caller)) s))) s
      else application_p s)"

text \<open>What \<open>CONDITIONAL_P_LABEL\<close> does with a form that passed its check.\<close>

definition conditional_start :: "unit M" where
  "conditional_start s =
     bnd (push_pointer (exp_reg s)) (\<lambda>_.
     bnd (clauses (exp_reg s)) (\<lambda>cl.
     bnd (upd (\<lambda>s. s\<lparr>exp_reg := cl\<rparr>)) (\<lambda>_.
     bnd (\<lambda>s. push_pointer (env_reg s) s) (\<lambda>_.
     bnd (\<lambda>s. push_pointer (cdr s (exp_reg s)) s) (\<lambda>_.
     bnd (push_label CONDITIONAL_CONT_LABEL) (\<lambda>_.
     bnd (upd (\<lambda>s. s\<lparr>exp_reg := car s (exp_reg s)\<rparr>)) (\<lambda>_.
     bnd (\<lambda>s. push_pointer (cdr s (exp_reg s)) s) (\<lambda>_.
     bnd (upd (\<lambda>s. s\<lparr>exp_reg := car s (exp_reg s)\<rparr>)) (\<lambda>_.
     jump START_LABEL))))))))) s"

definition conditional_p :: "unit M" where
  "conditional_p s =
     (if oper s = zap s ''if'' \<or> oper s = zap s ''cond'' then
        bnd (if syntaxcheck s then proper_length (exp_reg s) else ret (Some 3)) (\<lambda>n.
        bnd (opt (\<lambda>s. if syntaxcheck s \<and> n \<noteq> None
                         \<and> \<not> (car s (exp_reg s) = zap s ''if'' \<and> (the n = 3 \<or> the n = 4))
                         \<and> car s (exp_reg s) = zap s ''cond'' \<and> the n \<ge> 2
                       then list_of_clauses_p s (operands s (exp_reg s)) else Some True)) (\<lambda>lc s.
          if syntaxcheck s \<and>
             \<not> (n \<noteq> None \<and>
                ((car s (exp_reg s) = zap s ''if'' \<and> (the n = 3 \<or> the n = 4)) \<or>
                 (car s (exp_reg s) = zap s ''cond'' \<and> the n \<ge> 2 \<and> lc)))
          then eval_error ''SYNTAX ERROR: incorrect usage for conditional in '' s
          else conditional_start s)) s
      else lambda_p s)"

definition assignment_p :: "unit M" where
  "assignment_p s =
     (if oper s = zap s ''set!'' then
        bnd (if syntaxcheck s then proper_length (exp_reg s) else ret (Some 3)) (\<lambda>n s.
          if syntaxcheck s \<and> (n = None \<or> the n \<noteq> 3 \<or> \<not> symbol_p s (first_arg s (exp_reg s)))
          then eval_error ''SYNTAX ERROR: incorrect usage for set! in '' s
          else
            bnd (opt (\<lambda>s. reserved_p s (first_arg s (exp_reg s)))) (\<lambda>r.
              if r then eval_error ''RUNTIME ERROR: attempt to set! a keyword in ''
              else
                bnd (opt (\<lambda>s. binding_in_env s (first_arg s (exp_reg s)) (env_reg s))) (\<lambda>b.
                bnd (upd (\<lambda>s. s\<lparr>val_reg := b\<rparr>)) (\<lambda>_.
                  if b = NIL
                  then eval_error ''RUNTIME ERROR: unable to set! undefined variable in ''
                  else
                    bnd (\<lambda>s. push_pointer (env_reg s) s) (\<lambda>_.
                    bnd (\<lambda>s. push_pointer (val_reg s) s) (\<lambda>_.
                    bnd (\<lambda>s. push_pointer (first_arg s (exp_reg s)) s) (\<lambda>_.
                    bnd (push_label ASSIGNMENT_CONT_LABEL) (\<lambda>_.
                    bnd (upd (\<lambda>s. s\<lparr>exp_reg := second_arg s (exp_reg s)\<rparr>)) (\<lambda>_.
                    jump START_LABEL)))))))) s) s
      else conditional_p s)"

definition or_p :: "unit M" where
  "or_p s =
     (if oper s = zap s ''or'' then
        bnd (opt (\<lambda>s. if syntaxcheck s then list_p s (exp_reg s) else Some True)) (\<lambda>l s.
          if syntaxcheck s \<and> \<not> l
          then eval_error ''SYNTAX ERROR: incorrect usage for or in '' s
          else
            bnd (upd (\<lambda>s. s\<lparr>exp_reg := operands s (exp_reg s)\<rparr>)) (\<lambda>_ s.
              if exp_reg s = NIL
              then bnd (upd (\<lambda>s. s\<lparr>val_reg := false_zap\<rparr>)) (\<lambda>_. return_to_caller) s
              else eval_first_of OR_CONT_LABEL s) s) s
      else assignment_p s)"

definition and_p :: "unit M" where
  "and_p s =
     (if oper s = zap s ''and'' then
        bnd (opt (\<lambda>s. if syntaxcheck s then list_p s (exp_reg s) else Some True)) (\<lambda>l s.
          if syntaxcheck s \<and> \<not> l
          then eval_error ''SYNTAX ERROR: incorrect usage for and in '' s
          else
            bnd (upd (\<lambda>s. s\<lparr>exp_reg := operands s (exp_reg s)\<rparr>)) (\<lambda>_ s.
              if exp_reg s = NIL
              then bnd (upd (\<lambda>s. s\<lparr>val_reg := true_zap\<rparr>)) (\<lambda>_. return_to_caller) s
              else eval_first_of AND_CONT_LABEL s) s) s
      else or_p s)"

definition let_p :: "unit M" where
  "let_p s =
     (if oper s = zap s ''let'' then
        bnd (if syntaxcheck s then proper_length (exp_reg s) else ret (Some 3)) (\<lambda>n.
        bnd (opt (\<lambda>s. if syntaxcheck s \<and> n \<noteq> None \<and> \<not> the n < 3
                       then assoc_list_p s (first_arg s (exp_reg s)) else Some True)) (\<lambda>a s.
          if syntaxcheck s \<and> (n = None \<or> the n < 3 \<or> \<not> a)
          then eval_error ''SYNTAX ERROR: incorrect usage for let in '' s
          else
            bnd (separate_assoc (first_arg s (exp_reg s))) (\<lambda>al.
            bnd (upd (\<lambda>s. s\<lparr>argl_reg := al\<rparr>)) (\<lambda>_.
            bnd new_cons (\<lambda>p.
            bnd (upd (\<lambda>s. set_cdr p (cdr s (operands s (exp_reg s))) (s\<lparr>val_reg := p\<rparr>))) (\<lambda>_.
            bnd (upd (\<lambda>s. set_car p (car s (argl_reg s)) s)) (\<lambda>_.
            bnd (push_pointer p) (\<lambda>_.
            bnd new_cons (\<lambda>p.
            bnd (upd (\<lambda>s. set_car p (zap s ''lambda'') (s\<lparr>val_reg := p\<rparr>))) (\<lambda>_.
            bnd pop_pointer (\<lambda>v.
            bnd (upd (set_cdr p v)) (\<lambda>_.
            bnd (push_pointer p) (\<lambda>_.
            bnd new_cons (\<lambda>e.
            bnd (upd (\<lambda>s. s\<lparr>exp_reg := e\<rparr>)) (\<lambda>_.
            bnd pop_pointer (\<lambda>v.
            bnd (upd (set_car e v)) (\<lambda>_.
            bnd (upd (\<lambda>s. set_cdr e (cdr s (argl_reg s)) s)) (\<lambda>_.
            jump APPLICATION_P_LABEL)))))))))))))))) s)) s
      else and_p s)"

text \<open>The rewriting of \<open>(define (f . params) body...)\<close> into
  \<open>(define f (lambda params body...))\<close>.\<close>

definition define_sugar :: "unit M" where
  "define_sugar =
     bnd new_cons (\<lambda>p.
     bnd (upd (\<lambda>s. s\<lparr>val_reg := p\<rparr>)) (\<lambda>_.
     bnd (upd (\<lambda>s. set_cdr p (cdr s (operands s (exp_reg s))) s)) (\<lambda>_.
     bnd (upd (\<lambda>s. set_car p (cdr s (first_arg s (exp_reg s))) s)) (\<lambda>_.
     bnd (push_pointer p) (\<lambda>_.
     bnd new_cons (\<lambda>p.
     bnd (upd (\<lambda>s. set_car p (zap s ''lambda'') (s\<lparr>val_reg := p\<rparr>))) (\<lambda>_.
     bnd pop_pointer (\<lambda>v.
     bnd (upd (set_cdr p v)) (\<lambda>_.
     bnd (push_pointer p) (\<lambda>_.
     bnd new_cons (\<lambda>p.
     bnd (upd (\<lambda>s. s\<lparr>val_reg := p\<rparr>)) (\<lambda>_.
     bnd pop_pointer (\<lambda>v.
     bnd (upd (set_car p v)) (\<lambda>_.
     bnd (push_pointer p) (\<lambda>_.
     bnd new_cons (\<lambda>p.
     bnd (upd (\<lambda>s. set_car p (car s (first_arg s (exp_reg s))) (s\<lparr>val_reg := p\<rparr>))) (\<lambda>_.
     bnd pop_pointer (\<lambda>v.
     bnd (upd (set_cdr p v)) (\<lambda>_.
     bnd (push_pointer p) (\<lambda>_.
     bnd new_cons (\<lambda>e.
     bnd (upd (\<lambda>s. set_car e (zap s ''define'') (s\<lparr>exp_reg := e\<rparr>))) (\<lambda>_.
     bnd pop_pointer (\<lambda>v.
     upd (set_cdr e v))))))))))))))))))))))))"

definition sp_definition_p :: "unit M" where
  "sp_definition_p s =
     (if oper s = zap s ''define'' then
        bnd (if syntaxcheck s then proper_length (exp_reg s) else ret (Some 3)) (\<lambda>n s.
          if syntaxcheck s \<and> (n = None \<or> the n < 3)
          then eval_error ''SYNTAX ERROR: incorrect usage for define in '' s
          else
            bnd (opt (\<lambda>s. symbol_list_p s (first_arg s (exp_reg s)))) (\<lambda>sl.
            bnd (if sl then define_sugar else ret ()) (\<lambda>_.
            bnd (opt (\<lambda>s. if syntaxcheck s then length_c s (exp_reg s) else Some 3)) (\<lambda>n s.
              if syntaxcheck s \<and> (n \<noteq> 3 \<or> \<not> symbol_p s (first_arg s (exp_reg s)))
              then eval_error ''SYNTAX ERROR: incorrect usage for define in '' s
              else
                bnd (opt (\<lambda>s. reserved_p s (first_arg s (exp_reg s)))) (\<lambda>r.
                  if r then eval_error ''RUNTIME ERROR: attempt to define a keyword in ''
                  else
                    bnd (opt (\<lambda>s. binding_in_frame s (first_arg s (exp_reg s))
                                      (first_frame s (env_reg s)))) (\<lambda>b.
                    bnd (upd (\<lambda>s. s\<lparr>val_reg := b\<rparr>)) (\<lambda>_.
                    bnd (if b \<noteq> NIL
                         then upd (\<lambda>s. write_call (exp_reg s)
                                (printf ''WARNING: overwriting previous definition in '' s))
                         else ret ()) (\<lambda>_.
                    bnd (\<lambda>s. push_pointer (env_reg s) s) (\<lambda>_.
                    bnd (\<lambda>s. push_pointer (val_reg s) s) (\<lambda>_.
                    bnd (\<lambda>s. push_pointer (first_arg s (exp_reg s)) s) (\<lambda>_.
                    bnd (push_label DEFINITION_CONT_LABEL) (\<lambda>_.
                    bnd (upd (\<lambda>s. s\<lparr>exp_reg := second_arg s (exp_reg s)\<rparr>)) (\<lambda>_.
                    jump START_LABEL))))))))) s))) s) s
      else let_p s)"

definition quoted_p :: "unit M" where
  "quoted_p s =
     (if oper s = zap s ''quote'' then
        bnd (if syntaxcheck s then proper_length (exp_reg s) else ret (Some 2)) (\<lambda>n s.
          if syntaxcheck s \<and> (n = None \<or> the n \<noteq> 2)
          then eval_error ''SYNTAX ERROR: incorrect usage for quote in '' s
          else bnd (upd (\<lambda>s. s\<lparr>val_reg := first_arg s (exp_reg s)\<rparr>)) (\<lambda>_. return_to_caller) s) s
      else sp_definition_p s)"

definition forget_about_it :: "unit M" where
  "forget_about_it = jump UNKNOWN_EXPR_LABEL"

definition variable_p :: "unit M" where
  "variable_p s =
     (if symbol_p s (exp_reg s) then
        bnd (opt (\<lambda>s. reserved_p s (exp_reg s))) (\<lambda>r.
          if r then
            bnd new_cons (\<lambda>p.
            bnd (upd (\<lambda>s. set_hint_procedure p (set_car p (exp_reg s) (s\<lparr>val_reg := p\<rparr>)))) (\<lambda>_.
            return_to_caller))
          else
            bnd (opt (\<lambda>s. binding_in_env s (exp_reg s) (env_reg s))) (\<lambda>b.
            bnd (upd (\<lambda>s. s\<lparr>val_reg := b\<rparr>)) (\<lambda>_.
              if b = NIL then eval_error ''RUNTIME ERROR: unbound variable ''
              else bnd (upd (\<lambda>s. s\<lparr>val_reg := binding_value s (val_reg s)\<rparr>)) (\<lambda>_.
                   return_to_caller)))) s
      else forget_about_it s)"

definition self_eval_p :: "unit M" where
  "self_eval_p s =
     (if number_p s (exp_reg s) \<or> bool_p (exp_reg s) \<or> exp_reg s = NIL \<or> string_p s (exp_reg s)
         \<or> char_p (exp_reg s)
      then bnd (upd (\<lambda>s. s\<lparr>val_reg := exp_reg s\<rparr>)) (\<lambda>_. return_to_caller) s
      else variable_p s)"

definition start :: "unit M" where
  "start s =
     (if cbox_p s (exp_reg s)
      then jump QUOTED_P_LABEL (s\<lparr>oper := operator s (exp_reg s)\<rparr>)
      else self_eval_p s)"


subsection \<open>Evaluation of the operands and application\<close>

definition list_of_values :: "unit M" where
  "list_of_values =
     bnd pop_pointer (\<lambda>e.
     bnd pop_pointer (\<lambda>v.
     bnd (upd (\<lambda>s. s\<lparr>exp_reg := e, env_reg := v, fun_reg := val_reg s\<rparr>)) (\<lambda>_ s.
       if syntaxcheck s \<and> \<not> hint_procedure_p s (fun_reg s) then
         upd (\<lambda>s. (write_call (fun_reg s)
                (printf ''RUNTIME-ERROR: application of unapplicable schmilblik '' s))
                \<lparr>cont_reg := ERROR_LABEL\<rparr>) s
       else if exp_reg s = NIL then
         jump MICRO_APPLY_LABEL (s\<lparr>argl_reg := NIL\<rparr>)
       else
         bnd (push_pointer (fun_reg s)) (\<lambda>_.
         bnd (push_label LIST_OF_VALUES_COLLECT_STOP_LABEL) (\<lambda>_.
         bnd (\<lambda>s. if cdr s (exp_reg s) \<noteq> NIL
                   then bnd (push_label LIST_OF_VALUES_CONT_LABEL) (\<lambda>_.
                        bnd (push_pointer (env_reg s)) (\<lambda>_.
                        push_pointer (cdr s (exp_reg s)))) s
                   else push_label LIST_OF_VALUES_COLLECT_START_LABEL s) (\<lambda>_.
         bnd (upd (\<lambda>s. s\<lparr>exp_reg := car s (exp_reg s)\<rparr>)) (\<lambda>_.
         jump START_LABEL)))) s)))"

definition list_of_values_cont :: "unit M" where
  "list_of_values_cont =
     bnd pop_pointer (\<lambda>e.
     bnd pop_pointer (\<lambda>v.
     bnd (upd (\<lambda>s. s\<lparr>exp_reg := e, env_reg := v\<rparr>)) (\<lambda>_.
     bnd (\<lambda>s. push_pointer (val_reg s) s) (\<lambda>_.
     bnd (push_label LIST_OF_VALUES_COLLECT_LABEL) (\<lambda>_.
     bnd (\<lambda>s. if cdr s (exp_reg s) = NIL
               then push_label LIST_OF_VALUES_COLLECT_START_LABEL s
               else bnd (push_label LIST_OF_VALUES_CONT_LABEL) (\<lambda>_.
                    bnd (push_pointer (env_reg s)) (\<lambda>_.
                    push_pointer (cdr s (exp_reg s)))) s) (\<lambda>_.
     bnd (upd (\<lambda>s. s\<lparr>exp_reg := car s (exp_reg s)\<rparr>)) (\<lambda>_.
     jump START_LABEL)))))))"

definition list_of_values_collect :: "unit M" where
  "list_of_values_collect =
     bnd new_cons (\<lambda>u.
     bnd (upd (\<lambda>s. set_cdr u (argl_reg s) (s\<lparr>unev_reg := u\<rparr>))) (\<lambda>_.
     bnd pop_pointer (\<lambda>v.
     bnd (upd (\<lambda>s. (set_car u v s)\<lparr>argl_reg := u\<rparr>)) (\<lambda>_.
     return_to_caller))))"

definition list_of_values_collect_start :: "unit M" where
  "list_of_values_collect_start =
     bnd (upd (\<lambda>s. s\<lparr>argl_reg := NIL\<rparr>)) (\<lambda>_.
     bnd (\<lambda>s. push_pointer (val_reg s) s) (\<lambda>_.
     list_of_values_collect))"

definition micro_apply :: "unit M" where
  "micro_apply s =
     (if cdr s (fun_reg s) = NIL then
        bnd (apply_builtin (car s (fun_reg s)) (argl_reg s)) (\<lambda>v.
        bnd (upd (\<lambda>s. s\<lparr>val_reg := v\<rparr>)) (\<lambda>_.
        return_to_caller)) s
      else
        bnd (extend_environment (proc_params s (fun_reg s)) (argl_reg s) (proc_env s (fun_reg s))) (\<lambda>e.
        bnd (upd (\<lambda>s. s\<lparr>env_reg := e\<rparr>)) (\<lambda>_.
        bnd (upd (\<lambda>s. s\<lparr>exp_reg := proc_body s (fun_reg s)\<rparr>)) (\<lambda>_.
        jump EVAL_SEQUENCE_LABEL))) s)"

definition list_of_values_collect_stop :: "unit M" where
  "list_of_values_collect_stop =
     bnd pop_pointer (\<lambda>f.
     bnd (upd (\<lambda>s. s\<lparr>fun_reg := f\<rparr>)) (\<lambda>_.
     micro_apply))"

subsection \<open>Continuations of the special forms\<close>

definition definition_cont :: "unit M" where
  "definition_cont =
     bnd pop_pointer (\<lambda>e.
     bnd pop_pointer (\<lambda>u.
     bnd pop_pointer (\<lambda>v.
     bnd (upd (\<lambda>s. s\<lparr>exp_reg := e, unev_reg := u, env_reg := v\<rparr>)) (\<lambda>_.
     bnd (opt (\<lambda>s. binding_in_frame s (exp_reg s) (first_frame s (env_reg s)))) (\<lambda>b.
       if u \<noteq> b then
         eval_error ''RUNTIME-ERROR: binding for define changed during evaluation of ''
       else
         bnd (\<lambda>s. if unev_reg s = NIL
                   then define_variable_w (exp_reg s) (val_reg s) (env_reg s) s
                   else set_variable_w (exp_reg s) (val_reg s) (env_reg s) s) (\<lambda>_.
         bnd (upd (\<lambda>s. s\<lparr>val_reg := NIL\<rparr>)) (\<lambda>_.
         return_to_caller)))))))"

definition and_cont :: "unit M" where
  "and_cont =
     bnd pop_pointer (\<lambda>e.
     bnd pop_pointer (\<lambda>v.
     bnd (upd (\<lambda>s. s\<lparr>exp_reg := e, env_reg := v\<rparr>)) (\<lambda>_ s.
       if val_reg s = false_zap then return_to_caller s
       else eval_first_of AND_CONT_LABEL s)))"

definition or_cont :: "unit M" where
  "or_cont =
     bnd pop_pointer (\<lambda>e.
     bnd pop_pointer (\<lambda>v.
     bnd (upd (\<lambda>s. s\<lparr>exp_reg := e, env_reg := v\<rparr>)) (\<lambda>_ s.
       if val_reg s \<noteq> false_zap then return_to_caller s
       else eval_first_of OR_CONT_LABEL s)))"

definition assignment_cont :: "unit M" where
  "assignment_cont =
     bnd pop_pointer (\<lambda>e.
     bnd pop_pointer (\<lambda>u.
     bnd pop_pointer (\<lambda>v.
     bnd (upd (\<lambda>s. s\<lparr>exp_reg := e, unev_reg := u, env_reg := v\<rparr>)) (\<lambda>_.
     bnd (opt (\<lambda>s. binding_in_env s (exp_reg s) (env_reg s))) (\<lambda>b.
       if u \<noteq> b then
         eval_error ''RUNTIME-ERROR: binding for set! changed during evaluation of ''
       else
         bnd (\<lambda>s. set_variable_w (exp_reg s) (val_reg s) (env_reg s) s) (\<lambda>_.
         bnd (upd (\<lambda>s. s\<lparr>val_reg := NIL\<rparr>)) (\<lambda>_.
         return_to_caller)))))))"

definition conditional_cont :: "unit M" where
  "conditional_cont =
     bnd pop_pointer (\<lambda>e.
     bnd pop_pointer (\<lambda>u.
     bnd pop_pointer (\<lambda>v.
     bnd (upd (\<lambda>s. s\<lparr>exp_reg := e, unev_reg := u, env_reg := v\<rparr>)) (\<lambda>_ s.
       if val_reg s \<noteq> false_zap then
         bnd pop_pointer (\<lambda>_ s.
           if exp_reg s \<noteq> NIL then jump EVAL_SEQUENCE_LABEL s else return_to_caller s) s
       else if unev_reg s = NIL then
         bnd (upd (printf ''RUNTIME-ERROR: conditional w/o else-clause in '')) (\<lambda>_.
         bnd pop_pointer (\<lambda>w.
         bnd (upd (write_call w)) (\<lambda>_.
         jump ERROR_LABEL))) s
       else if car s (car s (unev_reg s)) = zap s ''else'' then
         bnd pop_pointer (\<lambda>_.
         bnd (upd (\<lambda>s. s\<lparr>exp_reg := cdr s (car s (unev_reg s))\<rparr>)) (\<lambda>_.
         jump EVAL_SEQUENCE_LABEL)) s
       else
         bnd (push_label CONDITIONAL_CONT_LABEL) (\<lambda>_.
         bnd (\<lambda>s. push_pointer (env_reg s) s) (\<lambda>_.
         bnd (\<lambda>s. push_pointer (cdr s (unev_reg s)) s) (\<lambda>_.
         bnd (upd (\<lambda>s. s\<lparr>exp_reg := car s (unev_reg s)\<rparr>)) (\<lambda>_.
         bnd (\<lambda>s. push_pointer (cdr s (exp_reg s)) s) (\<lambda>_.
         bnd (upd (\<lambda>s. s\<lparr>exp_reg := car s (exp_reg s)\<rparr>)) (\<lambda>_.
         jump START_LABEL)))))) s))))"

subsection \<open>Evaluation of a sequence\<close>

definition eval_sequence :: "unit M" where
  "eval_sequence = eval_first_of EVAL_SEQUENCE_CONT_LABEL"

definition eval_sequence_cont :: "unit M" where
  "eval_sequence_cont =
     bnd pop_pointer (\<lambda>e.
     bnd pop_pointer (\<lambda>v.
     bnd (upd (\<lambda>s. s\<lparr>exp_reg := e, env_reg := v\<rparr>)) (\<lambda>_.
     eval_first_of EVAL_SEQUENCE_CONT_LABEL)))"

subsection \<open>The loop\<close>

text \<open>
  One turn of the \<open>do ... while\<close> loop of \<open>evaluation_loop\<close>: the \<open>switch\<close> on \<open>cont_reg\<close>.
  A \<open>case\<close> that does not \<open>break\<close> falls through into the next, which is how each of the
  states above ends in the state that follows it in the source.
\<close>

definition step :: "unit M" where
  "step s =
     (let c = cont_reg s in
      if c = START_LABEL then start s
      else if c = SELF_EVAL_P_LABEL then self_eval_p s
      else if c = VARIABLE_P_LABEL then variable_p s
      else if c = FORGET_ABOUT_IT_LABEL then forget_about_it s
      else if c = QUOTED_P_LABEL then quoted_p s
      else if c = SP_DEFINITION_P_LABEL then sp_definition_p s
      else if c = LET_P_LABEL then let_p s
      else if c = AND_P_LABEL then and_p s
      else if c = OR_P_LABEL then or_p s
      else if c = ASSIGNMENT_P_LABEL then assignment_p s
      else if c = CONDITIONAL_P_LABEL then conditional_p s
      else if c = LAMBDA_P_LABEL then lambda_p s
      else if c = APPLICATION_P_LABEL then application_p s
      else if c = UNKNOWN_EXPR_LABEL then unknown_expr s
      else if c = LIST_OF_VALUES_LABEL then list_of_values s
      else if c = LIST_OF_VALUES_CONT_LABEL then list_of_values_cont s
      else if c = LIST_OF_VALUES_COLLECT_START_LABEL then list_of_values_collect_start s
      else if c = LIST_OF_VALUES_COLLECT_LABEL then list_of_values_collect s
      else if c = LIST_OF_VALUES_COLLECT_STOP_LABEL then list_of_values_collect_stop s
      else if c = MICRO_APPLY_LABEL then micro_apply s
      else if c = DEFINITION_CONT_LABEL then definition_cont s
      else if c = AND_CONT_LABEL then and_cont s
      else if c = OR_CONT_LABEL then or_cont s
      else if c = ASSIGNMENT_CONT_LABEL then assignment_cont s
      else if c = CONDITIONAL_CONT_LABEL then conditional_cont s
      else if c = EVAL_SEQUENCE_LABEL then eval_sequence s
      else if c = EVAL_SEQUENCE_CONT_LABEL then eval_sequence_cont s
      else if c = ERROR_LABEL then goto_recoverable_error s
      else goto_recoverable_error (printf ''PROGRAM ERROR: unknown label'' s))"

partial_function (option) eval_turns :: "unit M" where
  "eval_turns s =
     bnd step (\<lambda>_ s'. if cont_reg s' \<noteq> END_LABEL then eval_turns s' else ret () s') s"

definition evaluation_loop :: "unit M" where
  "evaluation_loop =
     bnd (push_label END_LABEL) (\<lambda>_.
     bnd (jump START_LABEL) (\<lambda>_. eval_turns))"

text \<open>
  The arm of the read-eval-print loop \<open>micro_eval\<close> for an expression that was read
  without error: it is evaluated, its value is written and bound to \<open>!!\<close>.
\<close>

definition micro_eval_ok :: "ipointer \<Rightarrow> unit M" where
  "micro_eval_ok begin_env =
     bnd (upd (printf ''Evaluating...'')) (\<lambda>_.
     bnd evaluation_loop (\<lambda>_.
     bnd (upd (\<lambda>s. write_call (val_reg s) s)) (\<lambda>_.
     bnd (make_symbol ''!!'') (\<lambda>v s.
     set_variable_w v (val_reg s) begin_env s))))"


section \<open>Reserved words\<close>

text \<open>
  The words \<open>init_magic\<close> enters into the keyword list, in its order. After \<open>init_magic\<close>
  their global variables hold pairwise different values: a word of up to three characters
  is a special value (its characters are inlined), a longer one is the address of a storage
  block of its own. \<open>keywords_ok\<close> says that much of the table \<open>zap\<close>.
\<close>

definition reserved_words :: "string list" where
  "reserved_words =
    [''*'', ''+'', ''-'', ''/'', ''<'', ''<='', ''='', ''>'', ''>='', ''and'', ''or'', ''not'',
     ''car'', ''cdr'', ''cadr'', ''cdar'', ''cddr'', ''caar'', ''cond'', ''if'', ''else'', ''cons'',
     ''define'', ''error'', ''integer?'', ''lambda'', ''length'', ''list'', ''newline'', ''null?'',
     ''number?'', ''odd?'', ''pair?'', ''eq?'', ''let'', ''string?'', ''symbol?'', ''even?'',
     ''list?'', ''set!'', ''set-car!'', ''set-cdr!'', ''read'', ''write'', ''quote'',
     ''caaar'', ''caadr'', ''cadar'', ''caddr'', ''cdaar'', ''cdadr'', ''cddar'', ''cdddr'',
     ''caaaar'', ''caaadr'', ''caadar'', ''caaddr'', ''cadaar'', ''cadadr'', ''caddar'', ''cadddr'',
     ''cdaaar'', ''cdaadr'', ''cdadar'', ''cdaddr'', ''cddaar'', ''cddadr'', ''cdddar'', ''cddddr'',
     ''gcstat'', ''memdump'', ''garbagecollect'', ''synchecktoggle'', ''gcstatwrite'']"

definition keywords_ok :: "machine \<Rightarrow> bool" where
  "keywords_ok s =
     (inj_on (zap s) (set reserved_words) \<and>
      (\<forall>w \<in> set reserved_words. special_p (zap s w) = (length w \<le> 3)))"

text \<open>A machine for the examples: a small memory, empty stacks, and a table of reserved
  words that numbers them (special values for the short words).\<close>

fun position :: "'a \<Rightarrow> 'a list \<Rightarrow> nat" where
  "position x [] = 0"
| "position x (y # ys) = (if x = y then 0 else Suc (position x ys))"

definition zap0 :: "string \<Rightarrow> ipointer" where
  "zap0 w = (if length w \<le> 3 then 6 else 0) + 8 * of_nat (Suc (position w reserved_words))"

definition m0 :: machine where
  "m0 = \<lparr>CBSLD = 8, DSLD = 8, STACKD = 16, REVSTACKD = 2, LSTACKD = 16, mem = (\<lambda>_. 0),
     cbslbase = 0x1000, dslbase = 0x2000, stack = [], revstack = [], lstack = [],
     cbox_free = NIL, stor_free = NIL, val_reg = NIL, env_reg = NIL, fun_reg = NIL,
     argl_reg = NIL, exp_reg = NIL, unev_reg = NIL, cont_reg = 0, syntaxcheck = True,
     keyword_pointer = NIL, zap = zap0, oper = NIL, out = []\<rparr>"


section \<open>The stack discipline of the evaluator\<close>

text \<open>
  A label on the label stack stands for the entries of the pointer stack that the state
  pushed with it and that the state it names pops again: \<open>owns\<close> counts them.
  \<open>depth\<close> adds them up for the labels above the \<open>END_LABEL\<close> that \<open>evaluation_loop\<close>
  pushed, \<open>after_end\<close> is the label stack below that label. \<open>pending st0 l0 k st ls\<close>
  says that the stacks \<open>st\<close> and \<open>ls\<close> are the stacks \<open>st0\<close> and \<open>l0\<close> of the entry into
  the loop, with the entries of the labels and \<open>k\<close> more pointers on top.
\<close>

definition same_stacks :: "machine \<Rightarrow> machine \<Rightarrow> bool" where
  "same_stacks s s' \<longleftrightarrow> stack s' = stack s \<and> lstack s' = lstack s"

definition owns :: "uchar \<Rightarrow> nat" where
  "owns l =
     (if l = LIST_OF_VALUES_LABEL \<or> l = LIST_OF_VALUES_CONT_LABEL \<or> l = AND_CONT_LABEL
         \<or> l = OR_CONT_LABEL \<or> l = EVAL_SEQUENCE_CONT_LABEL then 2
      else if l = LIST_OF_VALUES_COLLECT_LABEL \<or> l = LIST_OF_VALUES_COLLECT_STOP_LABEL then 1
      else if l = DEFINITION_CONT_LABEL \<or> l = ASSIGNMENT_CONT_LABEL then 3
      else if l = CONDITIONAL_CONT_LABEL then 4
      else 0)"

fun depth :: "uchar list \<Rightarrow> nat" where
  "depth [] = 0"
| "depth (l # ls) = (if l = END_LABEL then 0 else owns l + depth ls)"

fun after_end :: "uchar list \<Rightarrow> uchar list option" where
  "after_end [] = None"
| "after_end (l # ls) = (if l = END_LABEL then Some ls else after_end ls)"

definition pending :: "ipointer list \<Rightarrow> uchar list \<Rightarrow> nat \<Rightarrow> ipointer list \<Rightarrow> uchar list \<Rightarrow> bool" where
  "pending st0 l0 k st ls \<longleftrightarrow>
     after_end ls = Some l0 \<and> length st = length st0 + depth ls + k \<and> drop (depth ls + k) st = st0"

definition balancedL :: "ipointer list \<Rightarrow> uchar list \<Rightarrow> uchar \<Rightarrow> ipointer list \<Rightarrow> uchar list \<Rightarrow> bool" where
  "balancedL st0 l0 c st ls \<longleftrightarrow>
     c = ERROR_LABEL \<or>
     (if c = END_LABEL then ls = l0 \<and> st = st0 else pending st0 l0 (owns c) st ls)"

definition balanced :: "ipointer list \<Rightarrow> uchar list \<Rightarrow> machine \<Rightarrow> bool" where
  "balanced st0 l0 s \<longleftrightarrow> balancedL st0 l0 (cont_reg s) (stack s) (lstack s)"

text \<open>A machine with an environment that binds \<open>!!\<close>, and \<open>#t\<close> to evaluate.\<close>

definition m_top :: machine where
  "m_top = m0\<lparr>mem := (\<lambda>_. 0)(0x1000 := NIL, 0x1004 := 0x1008, 0x1008 := 0x1010, 0x100C := NIL,
                  0x1010 := zap_chars SYM_MAGIC_1 SYM_MAGIC_2 SYM_MAGIC_3 ''!!'', 0x1014 := NIL),
              env_reg := 0x1000, exp_reg := true_zap\<rparr>"


text \<open>
  A machine whose \<open>exp_reg\<close> holds the list \<open>(and #f (error "x"))\<close>, in five pairs, and
  the machine after its evaluation.
\<close>

definition m_and :: machine where
  "m_and = m0\<lparr>CBSLD := 16,
     mem := (\<lambda>_. 0)(0x1000 := zap0 ''and'', 0x1004 := 0x1008,
                       0x1008 := false_zap, 0x100C := 0x1010,
                       0x1010 := 0x1018, 0x1014 := NIL,
                       0x1018 := zap0 ''error'', 0x101C := 0x1020,
                       0x1020 := zap_chars STRING_MAGIC_1 STRING_MAGIC_2 STRING_MAGIC_3 ''x'', 0x1024 := NIL),
     exp_reg := 0x1000\<rparr>"

definition m_and_result :: machine where
  "m_and_result = m_and\<lparr>oper := zap0 ''and'', val_reg := false_zap, exp_reg := 0x1010,
     cont_reg := END_LABEL\<rparr>"


section \<open>Lists in memory and the clauses of cond\<close>

text \<open>
  \<open>hlist s p xs\<close>: the pairs from \<open>p\<close> on form the list of the values \<open>xs\<close>. A clause
  of a \<open>cond\<close> is such a list (\<open>Some\<close> of its elements), or is found not to be a list by
  \<open>list_p\<close> (\<open>None\<close>). \<open>cond_clauses_spec\<close> is the condition on the clauses in words:
  there is a clause, every clause is a list with an element, and a clause whose head is
  \<open>else\<close> is the last one, is not the first one and has two elements or more.
  \<open>clauses_ok_from\<close> is the same condition in the order in which the loop of
  \<open>list_of_clauses_p\<close> finds it, and \<open>conditional_syntax_error\<close> the state in which
  \<open>CONDITIONAL_P_LABEL\<close> leaves a form that it rejects.
\<close>

fun hlist :: "machine \<Rightarrow> ipointer \<Rightarrow> ipointer list \<Rightarrow> bool" where
  "hlist s p [] = (p = NIL)"
| "hlist s p (x # xs) = (p \<noteq> NIL \<and> cbox_p s p \<and> car s p = x \<and> hlist s (cdr s p) xs)"

definition clause_shape :: "machine \<Rightarrow> ipointer \<Rightarrow> ipointer list option \<Rightarrow> bool" where
  "clause_shape s c sh = (case sh of Some es \<Rightarrow> hlist s c es | None \<Rightarrow> list_p s c = Some False)"

definition cond_clauses_spec :: "ipointer \<Rightarrow> ipointer list option list \<Rightarrow> bool" where
  "cond_clauses_spec e shs \<longleftrightarrow>
     shs \<noteq> [] \<and>
     (\<forall>i < length shs. \<exists>es. shs ! i = Some es \<and> es \<noteq> [] \<and>
        (hd es = e \<longrightarrow> Suc i = length shs \<and> i \<noteq> 0 \<and> 2 \<le> length es))"

definition conditional_syntax_error :: "machine \<Rightarrow> machine" where
  "conditional_syntax_error s =
     (write_call (exp_reg s) (printf ''SYNTAX ERROR: incorrect usage for conditional in '' s))
       \<lparr>cont_reg := ERROR_LABEL\<rparr>"

fun clauses_ok_from :: "ipointer \<Rightarrow> nat \<Rightarrow> ipointer list option list \<Rightarrow> bool" where
  "clauses_ok_from e len [] = True"
| "clauses_ok_from e len (sh # rest) =
     ((\<exists>es. sh = Some es \<and> es \<noteq> [] \<and> (hd es = e \<longrightarrow> rest = [] \<and> len \<noteq> 0 \<and> 2 \<le> length es))
      \<and> clauses_ok_from e (Suc len) rest)"

text \<open>
  Machines whose \<open>exp_reg\<close> holds \<open>(cond (#t))\<close> and \<open>(cond (else #t))\<close>, and the machines
  in which their evaluations end.
\<close>

definition m_cond :: machine where
  "m_cond = m0\<lparr>mem := (\<lambda>_. 0)(0x1000 := zap0 ''cond'', 0x1004 := 0x1008,
                              0x1008 := 0x1010, 0x100C := NIL,
                              0x1010 := true_zap, 0x1014 := NIL),
               exp_reg := 0x1000\<rparr>"

definition m_cond_result :: machine where
  "m_cond_result = m_cond\<lparr>oper := zap0 ''cond'', val_reg := true_zap, exp_reg := NIL,
     cont_reg := END_LABEL\<rparr>"

definition m_cond_else :: machine where
  "m_cond_else = m0\<lparr>mem := (\<lambda>_. 0)(0x1000 := zap0 ''cond'', 0x1004 := 0x1008,
                              0x1008 := 0x1010, 0x100C := NIL,
                              0x1010 := zap0 ''else'', 0x1014 := 0x1018,
                              0x1018 := true_zap, 0x101C := NIL),
               exp_reg := 0x1000\<rparr>"

definition m_cond_else_error :: machine where
  "m_cond_else_error = m_cond_else\<lparr>lstack := [END_LABEL], oper := zap0 ''cond'',
     cont_reg := ERROR_LABEL,
     out := [Text ''SYNTAX ERROR: incorrect usage for conditional in '', Written 0x1000]\<rparr>"

text \<open>A machine whose \<open>exp_reg\<close> holds the improper form \<open>(cond . #t)\<close>.\<close>

definition m_cond_dot :: machine where
  "m_cond_dot = m0\<lparr>mem := (\<lambda>_. 0)(0x1000 := zap0 ''cond'', 0x1004 := true_zap),
               exp_reg := 0x1000\<rparr>"


section \<open>Free lists and runs of the collector\<close>


fun flist :: "machine \<Rightarrow> ipointer \<Rightarrow> ipointer list \<Rightarrow> bool" where
  "flist s p [] = (p = NIL)"
| "flist s p (b # bs) = (p \<noteq> NIL \<and> p = b \<and> flist s (get_freeptr s b) bs)"

text \<open>The first block of a list that is large enough, with the block before it.\<close>

fun first_fit_spec :: "machine \<Rightarrow> ulong \<Rightarrow> ipointer list \<Rightarrow> ipointer \<Rightarrow> ipointer \<times> ipointer" where
  "first_fit_spec s sz [] lst = (NIL, lst)"
| "first_fit_spec s sz (b # bs) lst = (if get_size s b < sz then first_fit_spec s sz bs b else (b, lst))"





section \<open>Short integers and two quotients\<close>

text \<open>
  \<open>short_zap val\<close> is the special value that \<open>make_int\<close> builds for an integer of the short
  range. \<open>m_div\<close> holds the argument list \<open>(-7 2)\<close> at the first pair; \<open>m_div_min\<close> holds the
  list \<open>(-2147483648 -1)\<close>, whose first element is an integer block of the storage, and has
  one free block of six longwords; \<open>m_div_min_result\<close> is that machine after \<open>make_int\<close> has
  carved a block of two longwords from the end of the free block and stored the least long
  in it.
\<close>

definition short_zap :: "long \<Rightarrow> ipointer" where
  "short_zap val = set_zap_special (set_zap_dataB (set_zap_type 0 SHORT_MAGIC) val)"

definition m_div :: machine where
  "m_div = m0\<lparr>mem := (\<lambda>_. 0)(0x1000 := short_zap (- 7), 0x1004 := 0x1008,
                             0x1008 := short_zap 2, 0x100C := NIL)\<rparr>"

definition m_div_min :: machine where
  "m_div_min = m0\<lparr>mem := (\<lambda>_. 0)(0x1000 := 0x2000, 0x1004 := 0x1008,
                             0x1008 := short_zap (- 1), 0x100C := NIL,
                             0x2000 := 0x20002, 0x2004 := 0x80000000,
                             0x2008 := 0x60000, 0x200C := NIL),
                  stor_free := 0x2008\<rparr>"

definition m_div_min_result :: machine where
  "m_div_min_result =
     set_data_storage_integer 0x2018 0x80000000
       (set_size 0x2018 2 (poke 0x2018 0 (set_size 0x2008 4 m_div_min)))"


section \<open>Turns of the loop and the evaluation of and\<close>

text \<open>
  \<open>turns h s t\<close>: one or more turns of the loop of \<open>evaluation_loop\<close> lead from \<open>s\<close> to \<open>t\<close>,
  and every state between them has at least \<open>h\<close> labels on the label stack and is not at
  \<open>END_LABEL\<close> (where the loop stops). \<open>evaluates s t\<close>: the evaluation of the expression in
  \<open>exp_reg\<close> that begins in \<open>s\<close>, at \<open>START_LABEL\<close>, returns in \<open>t\<close>: the turns from \<open>s\<close>
  reach \<open>t\<close> without going below the label stack of \<open>s\<close>, and \<open>t\<close> is at the label that
  was on top of it, with that label popped and the pointer stack as it was in \<open>s\<close>. The value
  of the expression is \<open>val_reg t\<close>.
\<close>

inductive turns :: "nat \<Rightarrow> machine \<Rightarrow> machine \<Rightarrow> bool" where
  one: "step s = Some (Normal () t) \<Longrightarrow> turns h s t"
| more: "step s = Some (Normal () u) \<Longrightarrow> h \<le> length (lstack u) \<Longrightarrow> cont_reg u \<noteq> END_LABEL \<Longrightarrow>
         turns h u t \<Longrightarrow> turns h s t"

code_pred turns .

definition evaluates :: "machine \<Rightarrow> machine \<Rightarrow> bool" where
  "evaluates s t \<longleftrightarrow>
     cont_reg s = START_LABEL \<and> lstack s \<noteq> [] \<and> turns (length (lstack s)) s t \<and>
     cont_reg t = hd (lstack s) \<and> lstack t = tl (lstack s) \<and> stack t = stack s"

text \<open>
  What the evaluation of the operands of an \<open>and\<close> form is, in words: \<open>and_from s t\<close>, for a
  state \<open>s\<close> whose \<open>exp_reg\<close> holds the operands not yet evaluated (there is one at least),
  says that their evaluation ends in \<open>t\<close>. The last operand is evaluated in the place of the
  form (rule \<open>last\<close>). Another operand is evaluated with the operands after it and the
  environment saved on the stacks under \<open>AND_CONT_LABEL\<close>; when its value is \<open>#f\<close> the form
  returns with that value and the operands after it are dropped (rule \<open>stop\<close>); otherwise
  the operands after it are evaluated in the same way, in the state that its evaluation has
  left (rule \<open>go_on\<close>).
\<close>

inductive and_from :: "machine \<Rightarrow> machine \<Rightarrow> bool" where
  last: "cdr s (exp_reg s) = NIL \<Longrightarrow>
         evaluates (s\<lparr>exp_reg := car s (exp_reg s), cont_reg := START_LABEL\<rparr>) t \<Longrightarrow>
         and_from s t"
| stop: "cdr s (exp_reg s) \<noteq> NIL \<Longrightarrow>
         length (lstack s) < LSTACKD s \<Longrightarrow> length (stack s) + 2 \<le> STACKD s \<Longrightarrow>
         evaluates (s\<lparr>lstack := AND_CONT_LABEL # lstack s,
                      stack := cdr s (exp_reg s) # env_reg s # stack s,
                      exp_reg := car s (exp_reg s), cont_reg := START_LABEL\<rparr>) t1 \<Longrightarrow>
         val_reg t1 = false_zap \<Longrightarrow> lstack s \<noteq> [] \<Longrightarrow>
         and_from s (t1\<lparr>stack := stack s, exp_reg := cdr s (exp_reg s), env_reg := env_reg s,
                        lstack := tl (lstack s), cont_reg := hd (lstack s)\<rparr>)"
| go_on: "cdr s (exp_reg s) \<noteq> NIL \<Longrightarrow>
         length (lstack s) < LSTACKD s \<Longrightarrow> length (stack s) + 2 \<le> STACKD s \<Longrightarrow>
         evaluates (s\<lparr>lstack := AND_CONT_LABEL # lstack s,
                      stack := cdr s (exp_reg s) # env_reg s # stack s,
                      exp_reg := car s (exp_reg s), cont_reg := START_LABEL\<rparr>) t1 \<Longrightarrow>
         val_reg t1 \<noteq> false_zap \<Longrightarrow>
         and_from (t1\<lparr>stack := stack s, exp_reg := cdr s (exp_reg s), env_reg := env_reg s\<rparr>) t \<Longrightarrow>
         and_from s t"

code_pred and_from .

text \<open>
  Machines whose \<open>exp_reg\<close> holds \<open>(and)\<close> and \<open>(and #t #f)\<close>, and the machines after their
  evaluation.
\<close>

definition m_and_empty :: machine where
  "m_and_empty = m0\<lparr>mem := (\<lambda>_. 0)(0x1000 := zap0 ''and'', 0x1004 := NIL), exp_reg := 0x1000\<rparr>"

definition m_and_empty_result :: machine where
  "m_and_empty_result = m_and_empty\<lparr>oper := zap0 ''and'', val_reg := true_zap, exp_reg := NIL,
     cont_reg := END_LABEL\<rparr>"

definition m_and_last :: machine where
  "m_and_last = m0\<lparr>mem := (\<lambda>_. 0)(0x1000 := zap0 ''and'', 0x1004 := 0x1008,
                       0x1008 := true_zap, 0x100C := 0x1010,
                       0x1010 := false_zap, 0x1014 := NIL),
     exp_reg := 0x1000\<rparr>"

definition m_and_last_result :: machine where
  "m_and_last_result = m_and_last\<lparr>oper := zap0 ''and'', val_reg := false_zap,
     exp_reg := false_zap, cont_reg := END_LABEL\<rparr>"


section \<open>Bit-level facts\<close>

lemma bit_range_int: "bit (mask hi AND NOT (mask lo) :: int) n \<longleftrightarrow> lo \<le> n \<and> n < hi"
  by (auto simp add: bit_simps)

lemma range_consts_int:
  "(0x01::int) = mask 1 AND NOT (mask 0)"
  "(0x03::int) = mask 2 AND NOT (mask 0)"
  "(0x06::int) = mask 3 AND NOT (mask 1)"
  "(0x07::int) = mask 3 AND NOT (mask 0)"
  "(0x1F::int) = mask 5 AND NOT (mask 0)"
  "(0xF8::int) = mask 8 AND NOT (mask 3)"
  "(0xFF::int) = mask 8 AND NOT (mask 0)"
  "(0xFF00::int) = mask 16 AND NOT (mask 8)"
  "(0xFF0000::int) = mask 24 AND NOT (mask 16)"
  "(0xFF000000::int) = mask 32 AND NOT (mask 24)"
  "(0xFFFF0000::int) = mask 32 AND NOT (mask 16)"
  "(0xFFFF::int) = mask 16 AND NOT (mask 0)"
  "(0xFFFE::int) = mask 16 AND NOT (mask 1)"
  "(0x7FFF::int) = mask 15 AND NOT (mask 0)"
  "(0x8000::int) = mask 16 AND NOT (mask 15)"
  by (simp_all add: mask_eq_exp_minus_1)

lemma bit_consts:
  "bit (0x01::int) n \<longleftrightarrow> n = 0"
  "bit (0x03::int) n \<longleftrightarrow> n < 2"
  "bit (0x06::int) n \<longleftrightarrow> 1 \<le> n \<and> n < 3"
  "bit (0x07::int) n \<longleftrightarrow> n < 3"
  "bit (0x1F::int) n \<longleftrightarrow> n < 5"
  "bit (0xF8::int) n \<longleftrightarrow> 3 \<le> n \<and> n < 8"
  "bit (0xFF::int) n \<longleftrightarrow> n < 8"
  "bit (0xFF00::int) n \<longleftrightarrow> 8 \<le> n \<and> n < 16"
  "bit (0xFF0000::int) n \<longleftrightarrow> 16 \<le> n \<and> n < 24"
  "bit (0xFF000000::int) n \<longleftrightarrow> 24 \<le> n \<and> n < 32"
  "bit (0xFFFF0000::int) n \<longleftrightarrow> 16 \<le> n \<and> n < 32"
  "bit (0xFFFF::int) n \<longleftrightarrow> n < 16"
  "bit (0xFFFE::int) n \<longleftrightarrow> 1 \<le> n \<and> n < 16"
  "bit (0x7FFF::int) n \<longleftrightarrow> n < 15"
  "bit (0x8000::int) n \<longleftrightarrow> n = 15"
  unfolding range_consts_int bit_range_int by auto

lemma low_bits_plus8: "c AND NOT 7 = 0 \<Longrightarrow> (c + 8 * k) AND 7 = (c::ulong)"
proof -
  assume c: "c AND NOT 7 = 0"
  have e: "8 * k = push_bit 3 k" by (simp add: push_bit_eq_mult)
  have cb: "\<And>n. bit c n \<Longrightarrow> n < 3"
  proof -
    fix n assume "bit c n"
    have "\<not> bit (c AND NOT 7) n" using c by simp
    then show "n < 3" using \<open>bit c n\<close> by (auto simp: bit_simps bit_consts dest: bit_imp_le_length)
  qed
  have d: "c AND push_bit 3 k = 0"
    by (rule bit_eqI) (auto simp: bit_simps dest: cb)
  have "c + push_bit 3 k = c OR push_bit 3 k" using d by (rule disjunctive_add_eq_or)
  then have "(c + 8 * k) AND 7 = (c OR push_bit 3 k) AND 7" by (simp add: e)
  also have "\<dots> = c"
    by (rule bit_eqI) (auto simp: bit_simps bit_consts dest: cb)
  finally show ?thesis .
qed

lemma make_bool_values: "make_bool True = 0x106" "make_bool False = 0x06"
  by (simp_all add: make_bool_def set_zap_special_def set_zap_dataA_def set_zap_type_def
        BOOL_MAGIC_def ZAP_SPECIAL_def)

section \<open>The table of reserved words\<close>

lemma zap_eq_iff:
  "keywords_ok s \<Longrightarrow> a \<in> set reserved_words \<Longrightarrow> b \<in> set reserved_words \<Longrightarrow>
   (zap s a = zap s b) = (a = b)"
  by (auto simp: keywords_ok_def dest: inj_onD)

lemma cxr_words_reserved: "fst ` set cxr_table \<subseteq> set reserved_words"
  by (simp add: cxr_table_def reserved_words_def)

lemma find_cxr_None:
  assumes "keywords_ok s" "w0 \<in> set reserved_words" "w0 \<notin> fst ` set cxr_table"
  shows "find (\<lambda>(w, inner, outer_car). zap s w0 = zap s w) cxr_table = None"
proof -
  have "\<not> (\<exists>e. e \<in> set cxr_table \<and> (case e of (w, inner, outer_car) \<Rightarrow> zap s w0 = zap s w))"
  proof
    assume "\<exists>e. e \<in> set cxr_table \<and> (case e of (w, inner, outer_car) \<Rightarrow> zap s w0 = zap s w)"
    then obtain w i oc where e: "(w, i, oc) \<in> set cxr_table" and z: "zap s w0 = zap s w"
      by auto
    from e have "w \<in> fst ` set cxr_table" by force
    then have "w \<in> set reserved_words" "w0 \<noteq> w"
      using cxr_words_reserved assms(3) by auto
    then show False using zap_eq_iff[OF assms(1,2), of w] z by blast
  qed
  then show ?thesis by (simp add: find_None_iff)
qed

lemma position_le: "position x xs \<le> length xs"
  by (induction xs) auto

lemma position_inj: "x \<in> set xs \<Longrightarrow> y \<in> set xs \<Longrightarrow> position x xs = position y xs \<Longrightarrow> x = y"
  by (induction xs) (auto split: if_splits)

lemma unat_zap0: "unat (zap0 w) = (if length w \<le> 3 then 6 else 0) + 8 * Suc (position w reserved_words)"
proof -
  have "position w reserved_words \<le> 74"
    using position_le[of w reserved_words] by (simp add: reserved_words_def)
  then show ?thesis
    by (simp add: zap0_def unat_word_ariths unat_of_nat)
qed

lemma special_zap0: "special_p (zap0 w) = (length w \<le> 3)"
proof -
  have "zap0 w AND 7 = (if length w \<le> 3 then 6 else 0)"
    unfolding zap0_def by (rule low_bits_plus8) auto
  then have "(zap0 w AND 7) AND 6 = (if length w \<le> 3 then 6 else 0)" by auto
  moreover have "(zap0 w AND 7) AND 6 = zap0 w AND 6"
    by (simp add: and.assoc)
  ultimately show ?thesis by (simp add: special_p_def)
qed

lemma keywords_ok_m0: "keywords_ok m0"
proof -
  have "inj_on zap0 (set reserved_words)"
  proof (rule inj_onI)
    fix x y assume x: "x \<in> set reserved_words" and y: "y \<in> set reserved_words" and e: "zap0 x = zap0 y"
    from e have "unat (zap0 x) = unat (zap0 y)" by simp
    then have "position x reserved_words = position y reserved_words"
      unfolding unat_zap0 by (auto split: if_splits) 
    then show "x = y" using position_inj x y by metis
  qed
  then show ?thesis by (simp add: keywords_ok_def m0_def special_zap0)
qed


section \<open>C10: synchecktoggle returns the old flag\<close>

text \<open>
  C10. Applied to the empty argument list, the built-in \<open>synchecktoggle\<close> negates the
  flag \<open>syntaxcheck\<close> and returns the boolean the flag held before the call: the old value,
  not the new one. (\<open>apply_builtin\<close> reaches the branch through \<open>apply_builtin1\<close>, past the
  28 composed accessors, \<open>gcstat\<close> and \<open>gcstatwrite\<close>, whose words differ from this one.)
\<close>

theorem synchecktoggle_returns_old:
  assumes "keywords_ok s"
  shows "apply_builtin (zap s ''synchecktoggle'') NIL s =
           Some (Normal (make_bool (syntaxcheck s)) (s\<lparr>syntaxcheck := \<not> syntaxcheck s\<rparr>))
         \<and> bool_of (make_bool (syntaxcheck s)) = syntaxcheck s"
proof -
  have m: "''synchecktoggle'' \<in> set reserved_words" by (simp add: reserved_words_def)
  have ns: "\<not> special_p (zap s ''synchecktoggle'')"
    using assms m by (auto simp: keywords_ok_def)
  have f: "find (\<lambda>(w, inner, outer_car). zap s ''synchecktoggle'' = zap s w) cxr_table = None"
    by (rule find_cxr_None[OF assms m]) (simp add: cxr_table_def)
  have g1: "zap s ''synchecktoggle'' \<noteq> zap s ''gcstat''"
    using zap_eq_iff[OF assms m, of "''gcstat''"] by (simp add: reserved_words_def)
  have g2: "zap s ''synchecktoggle'' \<noteq> zap s ''gcstatwrite''"
    using zap_eq_iff[OF assms m, of "''gcstatwrite''"] by (simp add: reserved_words_def)
  have "apply_builtin (zap s ''synchecktoggle'') NIL s =
           Some (Normal (make_bool (syntaxcheck s)) (s\<lparr>syntaxcheck := \<not> syntaxcheck s\<rparr>))"
    by (subst apply_builtin.simps) (simp add: ns f g1 g2 apply_builtin1_rest_def ret_def Let_def)
  moreover have "bool_of (make_bool (syntaxcheck s)) = syntaxcheck s"
    by (cases "syntaxcheck s") (simp_all add: bool_of_def true_zap_def make_bool_values)
  ultimately show ?thesis by simp
qed

theorem synchecktoggle_witness:
  "keywords_ok m0 \<and>
   apply_builtin (zap m0 ''synchecktoggle'') NIL m0 = Some (Normal true_zap (m0\<lparr>syntaxcheck := False\<rparr>))"
  using synchecktoggle_returns_old[OF keywords_ok_m0] keywords_ok_m0
  by (simp add: m0_def true_zap_def)


section \<open>Normal results of the calls\<close>

text \<open>When a call returns (rather than leaving by the recovery jump), and with what.\<close>

lemma bnd_Normal_iff:
  "bnd m k s = Some (Normal r s') \<longleftrightarrow> (\<exists>x s1. m s = Some (Normal x s1) \<and> k x s1 = Some (Normal r s'))"
  by (auto simp: bnd_def split: option.splits result.splits)

lemma ret_Normal_iff: "ret x s = Some (Normal r s') \<longleftrightarrow> r = x \<and> s' = s"
  by (auto simp: ret_def)

lemma upd_Normal_iff: "upd f s = Some (Normal u s') \<longleftrightarrow> s' = f s"
  by (auto simp: upd_def)

lemma gets_Normal_iff: "gets g s = Some (Normal r s') \<longleftrightarrow> r = g s \<and> s' = s"
  by (auto simp: gets_def)

lemma opt_Normal_iff: "opt h s = Some (Normal r s') \<longleftrightarrow> h s = Some r \<and> s' = s"
  by (auto simp: opt_def split: option.splits)

lemma error_Normal_iff:
  "goto_recoverable_error s \<noteq> Some (Normal r s')"
  "raise_with msg v s \<noteq> Some (Normal r s')"
  by (simp_all add: goto_recoverable_error_def raise_with_def)

lemma push_pointer_Normal_iff:
  "push_pointer p s = Some (Normal u s') \<longleftrightarrow> length (stack s) < STACKD s \<and> s' = s\<lparr>stack := p # stack s\<rparr>"
  by (auto simp: push_pointer_def goto_recoverable_error_def ret_def Let_def split: if_splits)

lemma pop_pointer_Normal_iff:
  "pop_pointer s = Some (Normal r s') \<longleftrightarrow> (\<exists>ps. stack s = r # ps \<and> s' = s\<lparr>stack := ps\<rparr>)"
  by (auto simp: pop_pointer_def goto_recoverable_error_def ret_def Let_def split: if_splits list.splits)

lemma push_label_Normal_iff:
  "push_label l s = Some (Normal u s') \<longleftrightarrow> length (lstack s) < LSTACKD s \<and> s' = s\<lparr>lstack := l # lstack s\<rparr>"
  by (auto simp: push_label_def goto_recoverable_error_def ret_def Let_def split: if_splits)

lemma pop_label_Normal_iff:
  "pop_label s = Some (Normal l s') \<longleftrightarrow> (\<exists>ls. lstack s = l # ls \<and> s' = s\<lparr>lstack := ls\<rparr>)"
  by (auto simp: pop_label_def goto_recoverable_error_def ret_def Let_def split: if_splits list.splits)

lemmas M_iff = bnd_Normal_iff ret_Normal_iff upd_Normal_iff gets_Normal_iff opt_Normal_iff
  error_Normal_iff push_pointer_Normal_iff pop_pointer_Normal_iff push_label_Normal_iff
  pop_label_Normal_iff

lemma stacks_prim [simp]:
  "stack (poke a w s) = stack s" "lstack (poke a w s) = lstack s"
  "stack (printf t s) = stack s" "lstack (printf t s) = lstack s"
  "stack (write_call v s) = stack s" "lstack (write_call v s) = lstack s"
  "stack (set_car a b s) = stack s" "lstack (set_car a b s) = lstack s"
  "stack (set_cdr a b s) = stack s" "lstack (set_cdr a b s) = lstack s"
  "stack (set_car_mark a s) = stack s" "lstack (set_car_mark a s) = lstack s"
  "stack (set_cdr_mark a s) = stack s" "lstack (set_cdr_mark a s) = lstack s"
  "stack (unset_car_mark a s) = stack s" "lstack (unset_car_mark a s) = lstack s"
  "stack (unset_cdr_mark a s) = stack s" "lstack (unset_cdr_mark a s) = lstack s"
  "stack (set_storage_mark a s) = stack s" "lstack (set_storage_mark a s) = lstack s"
  "stack (unset_storage_mark a s) = stack s" "lstack (unset_storage_mark a s) = lstack s"
  "stack (set_car_nomodify a b s) = stack s" "lstack (set_car_nomodify a b s) = lstack s"
  "stack (set_cdr_nomodify a b s) = stack s" "lstack (set_cdr_nomodify a b s) = lstack s"
  "stack (set_hint_procedure a s) = stack s" "lstack (set_hint_procedure a s) = lstack s"
  "stack (set_hint_environment a s) = stack s" "lstack (set_hint_environment a s) = lstack s"
  "stack (set_freeptr a b s) = stack s" "lstack (set_freeptr a b s) = lstack s"
  "stack (set_size a n s) = stack s" "lstack (set_size a n s) = lstack s"
  "stack (set_typedesc a n s) = stack s" "lstack (set_typedesc a n s) = lstack s"
  "stack (set_first_frame_w a b s) = stack s" "lstack (set_first_frame_w a b s) = lstack s"
  by (simp_all add: poke_def printf_def write_call_def set_car_def set_cdr_def set_car_mark_def set_cdr_mark_def unset_car_mark_def unset_cdr_mark_def set_storage_mark_def unset_storage_mark_def set_car_nomodify_def set_cdr_nomodify_def set_hint_procedure_def set_hint_environment_def set_freeptr_def set_size_def set_typedesc_def set_first_frame_w_def Let_def)

lemma stacks_poke_byte [simp]: "stack (poke_byte a b s) = stack s" "lstack (poke_byte a b s) = lstack s"
  by (simp_all add: poke_byte_def Let_def)

lemma stacks_strcpy [simp]: "stack (strcpy a v s) = stack s" "lstack (strcpy a v s) = lstack s"
  by (induction v arbitrary: a s) simp_all

lemma stacks_storage [simp]:
  "stack (set_data_storage_string p v s) = stack s" "lstack (set_data_storage_string p v s) = lstack s"
  "stack (set_data_storage_symbol p v s) = stack s" "lstack (set_data_storage_symbol p v s) = lstack s"
  "stack (set_data_storage_integer p i s) = stack s" "lstack (set_data_storage_integer p i s) = lstack s"
  by (simp_all add: set_data_storage_string_def set_data_storage_symbol_def set_data_storage_integer_def)

lemma same_stacks_refl [simp]: "same_stacks s s"
  by (simp add: same_stacks_def)

lemma same_stacks_trans: "same_stacks s s1 \<Longrightarrow> same_stacks s1 s2 \<Longrightarrow> same_stacks s s2"
  by (simp add: same_stacks_def)

lemma mark_step_stacks: "mark_step s cur prev = (s', c', p', st) \<Longrightarrow> same_stacks s s'"
  by (auto simp: mark_step_def Let_def same_stacks_def split: if_splits)

lemma mark_loop_stacks:
  assumes "mark_loop s cur prev = Some s'"
  shows "same_stacks s s'"
  by (rule mark_loop.raw_induct[where P = "\<lambda>s cur prev y. same_stacks s y", OF _ assms])
    (auto split: prod.splits if_splits dest!: mark_step_stacks simp: same_stacks_def)

lemma mark_root_stacks: "mark_root p s = Some s' \<Longrightarrow> same_stacks s s'"
  by (auto simp: mark_root_def mark_def split: if_splits dest: mark_loop_stacks)

lemma mark_roots_stacks: "mark_roots ps s = Some s' \<Longrightarrow> same_stacks s s'"
proof (induction ps arbitrary: s)
  case Nil then show ?case by simp
next
  case (Cons p ps)
  then show ?case by (auto simp: bind_eq_Some_conv dest!: mark_root_stacks intro: same_stacks_trans)
qed

lemma sweep_cbox_loop_stacks:
  assumes "sweep_cbox_loop s p = Some s'"
  shows "same_stacks s s'"
  by (rule sweep_cbox_loop.raw_induct[where P = "\<lambda>s p y. same_stacks s y", OF _ assms])
    (auto split: if_splits simp: same_stacks_def)

lemma sweep_storage_loop_stacks:
  assumes "sweep_storage_loop s p = Some s'"
  shows "same_stacks s s'"
  by (rule sweep_storage_loop.raw_induct[where P = "\<lambda>s p y. same_stacks s y", OF _ assms])
    (auto simp: Let_def same_stacks_def split: if_splits option.splits)

lemma garbage_collect_stacks: "garbage_collect s = Some s' \<Longrightarrow> same_stacks s s'"
  unfolding garbage_collect_def sweep_cbox_def sweep_storage_def
  by (auto simp: bind_eq_Some_conv same_stacks_def
      dest!: mark_roots_stacks mark_root_stacks sweep_cbox_loop_stacks sweep_storage_loop_stacks)

lemma new_cons_stacks: "new_cons s = Some (Normal p s') \<Longrightarrow> same_stacks s s'"
  by (auto simp: new_cons_def Let_def M_iff same_stacks_def split: if_splits option.splits
      dest!: garbage_collect_stacks)

lemma carve_stacks: "carve sz tmp lst s = Some (Normal p s') \<Longrightarrow> same_stacks s s'"
  by (auto simp: carve_def Let_def M_iff same_stacks_def split: if_splits)

lemma new_storage_stacks: "new_storage n s = Some (Normal p s') \<Longrightarrow> same_stacks s s'"
  by (auto simp: new_storage_def Let_def M_iff same_stacks_def split: if_splits option.splits prod.splits
      dest!: garbage_collect_stacks carve_stacks)

lemma make_int_stacks: "make_int v s = Some (Normal p s') \<Longrightarrow> same_stacks s s'"
  by (auto simp: make_int_def M_iff same_stacks_def split: if_splits dest!: new_storage_stacks)

lemma cons_stacks: "cons a b s = Some (Normal p s') \<Longrightarrow> same_stacks s s'"
  by (auto simp: cons_def M_iff same_stacks_def dest!: new_cons_stacks)

lemma adjoin_binding_stacks: "adjoin_binding a b s = Some (Normal p s') \<Longrightarrow> same_stacks s s'"
  by (auto simp: adjoin_binding_def M_iff same_stacks_def dest!: new_cons_stacks)

lemma make_frame_loop_stacks:
  assumes "make_frame_loop e vars vals s = Some (Normal r s')"
  shows "same_stacks s s'"
proof -
  have "(\<lambda>e vars vals s res. \<forall>r s'. res = Normal r s' \<longrightarrow> same_stacks s s') e vars vals s (Normal r s')"
    by (rule make_frame_loop.raw_induct[OF _ assms])
      (auto simp: M_iff Let_def same_stacks_def split: if_splits dest!: cons_stacks)
  then show ?thesis by (cases r) auto
qed

lemma make_frame_stacks: "make_frame vars vals s = Some (Normal p s') \<Longrightarrow> same_stacks s s'"
  unfolding make_frame_def make_frame_mismatch_def
  by (auto simp: M_iff Let_def same_stacks_def split: if_splits prod.splits
      dest!: cons_stacks adjoin_binding_stacks make_frame_loop_stacks)

lemma define_variable_w_stacks: "define_variable_w var val env s = Some (Normal u s') \<Longrightarrow> same_stacks s s'"
  unfolding define_variable_w_def
  by (auto simp: M_iff same_stacks_def dest!: cons_stacks adjoin_binding_stacks)

lemma set_variable_w_stacks: "set_variable_w var val env s = Some (Normal u s') \<Longrightarrow> same_stacks s s'"
  unfolding set_variable_w_def
  by (auto simp: M_iff same_stacks_def split: if_splits)

lemma extend_environment_stacks:
  "extend_environment vars vals base s = Some (Normal p s') \<Longrightarrow> same_stacks s s'"
  unfolding extend_environment_def
  by (auto simp: M_iff same_stacks_def split: if_splits dest!: cons_stacks make_frame_stacks)

lemma separate_assoc_loop_stacks:
  assumes "separate_assoc_loop lst varlast vallast s = Some (Normal r s')"
  shows "same_stacks s s'"
proof -
  have "(\<lambda>lst varlast vallast s res. \<forall>r s'. res = Normal r s' \<longrightarrow> same_stacks s s') lst varlast vallast s (Normal r s')"
    by (rule separate_assoc_loop.raw_induct[OF _ assms])
      (auto simp: M_iff Let_def same_stacks_def split: if_splits dest!: new_cons_stacks)
  then show ?thesis by auto
qed

lemma separate_assoc_stacks: "separate_assoc lst s = Some (Normal p s') \<Longrightarrow> same_stacks s s'"
  unfolding separate_assoc_def
  by (auto simp: M_iff same_stacks_def split: if_splits dest!: new_cons_stacks separate_assoc_loop_stacks)

lemma clauses_else_stacks: "clauses_else e s = Some (Normal p s') \<Longrightarrow> same_stacks s s'"
  unfolding clauses_else_def
  by (auto simp: M_iff same_stacks_def dest!: new_cons_stacks)

lemma clauses_if_stacks: "clauses_if e s = Some (Normal p s') \<Longrightarrow> same_stacks s s'"
  unfolding clauses_if_def
  by (auto simp: M_iff same_stacks_def split: if_splits dest!: new_cons_stacks clauses_else_stacks)

lemma clauses_stacks: "clauses e s = Some (Normal p s') \<Longrightarrow> same_stacks s s'"
  unfolding clauses_def
  by (auto simp: M_iff split: if_splits dest!: clauses_if_stacks)

lemma arith_loop_state:
  assumes "arith_loop f msg args x s = Some (Normal r s')"
  shows "s' = s"
proof -
  note r = arith_loop.raw_induct[where P = "\<lambda>f msg args x s res. \<forall>r s'. res = Normal r s' \<longrightarrow> s' = s"
      and xa = "((((f, msg), args), x), s)", simplified]
  have "\<forall>r' s''. Normal r s' = Normal r' s'' \<longrightarrow> s'' = s"
    by (rule r[OF _ assms]) (auto simp: M_iff split: if_splits)
  then show ?thesis by auto
qed

lemma compare_loop_state:
  assumes "compare_loop f msg args x s = Some (Normal r s')"
  shows "s' = s"
proof -
  note r = compare_loop.raw_induct[where P = "\<lambda>f msg args x s res. \<forall>r s'. res = Normal r s' \<longrightarrow> s' = s"
      and xa = "((((f, msg), args), x), s)", simplified]
  have "\<forall>r' s''. Normal r s' = Normal r' s'' \<longrightarrow> s'' = s"
    by (rule r[OF _ assms]) (auto simp: M_iff Let_def split: if_splits)
  then show ?thesis by auto
qed

lemma compare_builtin_state: "compare_builtin f msg args s = Some (Normal r s') \<Longrightarrow> s' = s"
  by (auto simp: compare_builtin_def M_iff split: if_splits dest!: compare_loop_state)

lemma div_builtin_stacks: "div_builtin args s = Some (Normal r s') \<Longrightarrow> same_stacks s s'"
  by (auto simp: div_builtin_def M_iff Let_def split: if_splits dest!: arith_loop_state make_int_stacks)

lemma sub_builtin_stacks: "sub_builtin args s = Some (Normal r s') \<Longrightarrow> same_stacks s s'"
  by (auto simp: sub_builtin_def M_iff Let_def split: if_splits dest!: arith_loop_state make_int_stacks)

lemma apply_special_stacks: "apply_special proc args s = Some (Normal r s') \<Longrightarrow> same_stacks s s'"
  unfolding apply_special_def
  by (auto simp: M_iff split: if_splits
      dest!: arith_loop_state make_int_stacks compare_builtin_state div_builtin_stacks sub_builtin_stacks)

lemma apply_builtin2_stacks: "apply_builtin2 proc args s = Some (Normal r s') \<Longrightarrow> same_stacks s s'"
  unfolding apply_builtin2_def
  by (auto simp: M_iff same_stacks_def split: if_splits
      dest!: make_int_stacks garbage_collect_stacks)

lemma gcstat_builtin_stacks: "gcstat_builtin s = Some (Normal r s') \<Longrightarrow> same_stacks s s'"
  unfolding gcstat_builtin_def
  by (auto simp: M_iff same_stacks_def dest!: make_int_stacks new_cons_stacks)

lemma statistics_mem_stacks: "statistics_mem s = Some (Normal r s') \<Longrightarrow> same_stacks s s'"
  unfolding statistics_mem_def
  by (auto simp: M_iff same_stacks_def)

lemma apply_builtin1_rest_stacks:
  "apply_builtin1_rest proc args s = Some (Normal r s') \<Longrightarrow> same_stacks s s'"
  unfolding apply_builtin1_rest_def
  by (auto simp: M_iff same_stacks_def Let_def split: if_splits
      dest!: gcstat_builtin_stacks statistics_mem_stacks cons_stacks apply_builtin2_stacks)

lemma apply_builtin_stacks:
  assumes "apply_builtin proc args s = Some (Normal r s')"
  shows "same_stacks s s'"
proof -
  have "(\<lambda>proc args s res. \<forall>r s'. res = Normal r s' \<longrightarrow> same_stacks s s') proc args s (Normal r s')"
    by (rule apply_builtin.raw_induct[OF _ assms])
      (auto simp: M_iff split: if_splits option.splits
        dest!: apply_special_stacks apply_builtin1_rest_stacks)
  then show ?thesis by auto
qed

section \<open>The stacks across one turn of the loop\<close>

lemma owns_simps [simp]:
  "owns START_LABEL = 0" "owns SELF_EVAL_P_LABEL = 0" "owns VARIABLE_P_LABEL = 0"
  "owns FORGET_ABOUT_IT_LABEL = 0" "owns QUOTED_P_LABEL = 0" "owns SP_DEFINITION_P_LABEL = 0"
  "owns LET_P_LABEL = 0" "owns AND_P_LABEL = 0" "owns OR_P_LABEL = 0" "owns ASSIGNMENT_P_LABEL = 0"
  "owns CONDITIONAL_P_LABEL = 0" "owns LAMBDA_P_LABEL = 0" "owns APPLICATION_P_LABEL = 0"
  "owns UNKNOWN_EXPR_LABEL = 0" "owns LIST_OF_VALUES_LABEL = Suc (Suc 0)"
  "owns LIST_OF_VALUES_CONT_LABEL = Suc (Suc 0)"
  "owns LIST_OF_VALUES_COLLECT_START_LABEL = 0" "owns LIST_OF_VALUES_COLLECT_LABEL = Suc 0"
  "owns LIST_OF_VALUES_COLLECT_STOP_LABEL = Suc 0" "owns MICRO_APPLY_LABEL = 0"
  "owns DEFINITION_CONT_LABEL = Suc (Suc (Suc 0))" "owns AND_CONT_LABEL = Suc (Suc 0)"
  "owns OR_CONT_LABEL = Suc (Suc 0)"
  "owns ASSIGNMENT_CONT_LABEL = Suc (Suc (Suc 0))"
  "owns CONDITIONAL_CONT_LABEL = Suc (Suc (Suc (Suc 0)))" "owns EVAL_SEQUENCE_LABEL = 0"
  "owns EVAL_SEQUENCE_CONT_LABEL = Suc (Suc 0)" "owns ERROR_LABEL = 0" "owns END_LABEL = 0"
  by (simp_all add: owns_def label_defs)

lemma label_neq [simp]:
  "START_LABEL \<noteq> END_LABEL" "START_LABEL \<noteq> ERROR_LABEL"
  "QUOTED_P_LABEL \<noteq> END_LABEL" "QUOTED_P_LABEL \<noteq> ERROR_LABEL"
  "APPLICATION_P_LABEL \<noteq> END_LABEL" "APPLICATION_P_LABEL \<noteq> ERROR_LABEL"
  "UNKNOWN_EXPR_LABEL \<noteq> END_LABEL" "UNKNOWN_EXPR_LABEL \<noteq> ERROR_LABEL"
  "MICRO_APPLY_LABEL \<noteq> END_LABEL" "MICRO_APPLY_LABEL \<noteq> ERROR_LABEL"
  "EVAL_SEQUENCE_LABEL \<noteq> END_LABEL" "EVAL_SEQUENCE_LABEL \<noteq> ERROR_LABEL"
  "LIST_OF_VALUES_LABEL \<noteq> END_LABEL" "LIST_OF_VALUES_CONT_LABEL \<noteq> END_LABEL"
  "LIST_OF_VALUES_COLLECT_START_LABEL \<noteq> END_LABEL" "LIST_OF_VALUES_COLLECT_LABEL \<noteq> END_LABEL"
  "LIST_OF_VALUES_COLLECT_STOP_LABEL \<noteq> END_LABEL" "DEFINITION_CONT_LABEL \<noteq> END_LABEL"
  "AND_CONT_LABEL \<noteq> END_LABEL" "OR_CONT_LABEL \<noteq> END_LABEL" "ASSIGNMENT_CONT_LABEL \<noteq> END_LABEL"
  "CONDITIONAL_CONT_LABEL \<noteq> END_LABEL" "EVAL_SEQUENCE_CONT_LABEL \<noteq> END_LABEL"
  "ERROR_LABEL \<noteq> END_LABEL"
  by (simp_all add: label_defs)

lemma pending_push_label [simp]:
  "l \<noteq> END_LABEL \<Longrightarrow> pending st0 l0 k st (l # ls) = pending st0 l0 (owns l + k) st ls"
  by (simp add: pending_def add_ac)

lemma pending_push [simp]: "pending st0 l0 (Suc k) (p # st) ls = pending st0 l0 k st ls"
  by (simp add: pending_def)

lemma pending_pop [simp]: "st \<noteq> [] \<Longrightarrow> pending st0 l0 k (tl st) ls = pending st0 l0 (Suc k) st ls"
  by (cases st) (auto simp: pending_def)

lemma balancedL_error [simp]: "balancedL st0 l0 ERROR_LABEL st ls"
  by (simp add: balancedL_def)

lemma balancedL_jump:
  "c \<noteq> END_LABEL \<Longrightarrow> c \<noteq> ERROR_LABEL \<Longrightarrow> balancedL st0 l0 c st ls = pending st0 l0 (owns c) st ls"
  by (simp add: balancedL_def)

lemma balancedL_return:
  "ls \<noteq> [] \<Longrightarrow> pending st0 l0 0 st ls \<Longrightarrow> balancedL st0 l0 (hd ls) st (tl ls)"
  by (cases ls) (auto simp: balancedL_def pending_def add_ac split: if_splits)

lemma opt_state: "opt f s = Some (Normal r s') \<Longrightarrow> s' = s"
  by (simp add: opt_Normal_iff)

lemma gets_state: "gets f s = Some (Normal r s') \<Longrightarrow> s' = s"
  by (simp add: gets_Normal_iff)

lemma proper_length_state: "proper_length e s = Some (Normal n s') \<Longrightarrow> s' = s"
  by (auto simp: proper_length_def M_iff split: if_splits)

lemma jump_Normal_iff: "jump l s = Some (Normal u s') \<longleftrightarrow> s' = s\<lparr>cont_reg := l\<rparr>"
  by (simp add: jump_def upd_Normal_iff)

lemma pop_pointer_hd_tl:
  "pop_pointer s = Some (Normal r s') \<longleftrightarrow> stack s \<noteq> [] \<and> r = hd (stack s) \<and> s' = s\<lparr>stack := tl (stack s)\<rparr>"
  by (cases "stack s") (auto simp: pop_pointer_Normal_iff)

lemma return_to_caller_hd_tl:
  "return_to_caller s = Some (Normal u s') \<longleftrightarrow>
     lstack s \<noteq> [] \<and> s' = s\<lparr>lstack := tl (lstack s), cont_reg := hd (lstack s)\<rparr>"
  by (cases "lstack s") (auto simp: return_to_caller_def jump_def M_iff)

lemma eval_error_Normal_iff:
  "eval_error msg s = Some (Normal u s') \<longleftrightarrow> s' = (write_call (exp_reg s) (printf msg s))\<lparr>cont_reg := ERROR_LABEL\<rparr>"
  by (auto simp: eval_error_def M_iff)

lemma if_SomeD: "(if c then a else b) = Some r \<Longrightarrow> a = Some r \<or> b = Some r"
  by (simp split: if_splits)

lemma if_app_SomeD: "(if c then f else g) s = Some r \<Longrightarrow> f s = Some r \<or> g s = Some r"
  by (simp split: if_splits)

lemma same_stacksD: "same_stacks s s' \<Longrightarrow> stack s' = stack s \<and> lstack s' = lstack s"
  by (simp add: same_stacks_def)

lemmas S_iff = bnd_Normal_iff ret_Normal_iff upd_Normal_iff
  error_Normal_iff push_pointer_Normal_iff pop_pointer_hd_tl push_label_Normal_iff
  jump_Normal_iff return_to_caller_hd_tl eval_error_Normal_iff

lemmas state_dests = opt_state gets_state proper_length_state if_SomeD if_app_SomeD same_stacksD

lemmas bal_simps = balanced_def balancedL_jump balancedL_return

lemma unknown_expr_balanced: "unknown_expr s = Some (Normal u s') \<Longrightarrow> balanced st0 l0 s'"
  by (auto simp: unknown_expr_def S_iff bal_simps)

lemma application_p_balanced:
  assumes "pending st0 l0 0 (stack s) (lstack s)" "application_p s = Some (Normal u s')"
  shows "balanced st0 l0 s'"
  using assms unfolding application_p_def unknown_expr_def
  by (auto simp: S_iff bal_simps dest!: state_dests)

lemma lambda_p_balanced:
  assumes P: "pending st0 l0 0 (stack s) (lstack s)" and R: "lambda_p s = Some (Normal u s')"
  shows "balanced st0 l0 s'"
proof (cases "oper s = zap s ''lambda''")
  case False
  with R have "application_p s = Some (Normal u s')" by (simp add: lambda_p_def)
  then show ?thesis by (rule application_p_balanced[OF P])
next
  case True
  with R P show ?thesis unfolding lambda_p_def
    by (auto simp: S_iff bal_simps dest!: state_dests new_cons_stacks)
qed

lemma conditional_p_balanced:
  assumes P: "pending st0 l0 0 (stack s) (lstack s)" and R: "conditional_p s = Some (Normal u s')"
  shows "balanced st0 l0 s'"
proof (cases "oper s = zap s ''if'' \<or> oper s = zap s ''cond''")
  case False
  with R have "lambda_p s = Some (Normal u s')" by (simp add: conditional_p_def)
  then show ?thesis by (rule lambda_p_balanced[OF P])
next
  case True
  with R P show ?thesis unfolding conditional_p_def conditional_start_def
    by (auto simp: S_iff bal_simps dest!: state_dests clauses_stacks)
qed

lemma assignment_p_balanced:
  assumes P: "pending st0 l0 0 (stack s) (lstack s)" and R: "assignment_p s = Some (Normal u s')"
  shows "balanced st0 l0 s'"
proof (cases "oper s = zap s ''set!''")
  case False
  with R have "conditional_p s = Some (Normal u s')" by (simp add: assignment_p_def)
  then show ?thesis by (rule conditional_p_balanced[OF P])
next
  case True
  with R P show ?thesis unfolding assignment_p_def
    by (auto simp: S_iff bal_simps dest!: state_dests)
qed

lemma eval_first_of_balanced:
  assumes "pending st0 l0 0 (stack s) (lstack s)" "owns l = Suc (Suc 0)" "l \<noteq> END_LABEL"
    "eval_first_of l s = Some (Normal u s')"
  shows "balanced st0 l0 s'"
  using assms unfolding eval_first_of_def
  by (auto simp: S_iff bal_simps dest!: state_dests)

lemma eval_first_of_stacks:
  "eval_first_of l s = Some (Normal u s') \<Longrightarrow>
   cont_reg s' = START_LABEL \<and>
   ((stack s' = stack s \<and> lstack s' = lstack s) \<or>
    (\<exists>a b. stack s' = a # b # stack s \<and> lstack s' = l # lstack s))"
  unfolding eval_first_of_def
  by (auto simp: S_iff dest!: state_dests)

lemma or_p_balanced:
  assumes P: "pending st0 l0 0 (stack s) (lstack s)" and R: "or_p s = Some (Normal u s')"
  shows "balanced st0 l0 s'"
proof (cases "oper s = zap s ''or''")
  case False
  with R have "assignment_p s = Some (Normal u s')" by (simp add: or_p_def)
  then show ?thesis by (rule assignment_p_balanced[OF P])
next
  case True
  with R P show ?thesis unfolding or_p_def 
    by (auto simp: S_iff bal_simps dest!: state_dests eval_first_of_stacks)
qed

lemma and_p_balanced:
  assumes P: "pending st0 l0 0 (stack s) (lstack s)" and R: "and_p s = Some (Normal u s')"
  shows "balanced st0 l0 s'"
proof (cases "oper s = zap s ''and''")
  case False
  with R have "or_p s = Some (Normal u s')" by (simp add: and_p_def)
  then show ?thesis by (rule or_p_balanced[OF P])
next
  case True
  with R P show ?thesis unfolding and_p_def 
    by (auto simp: S_iff bal_simps dest!: state_dests eval_first_of_stacks)
qed

lemma let_p_balanced:
  assumes P: "pending st0 l0 0 (stack s) (lstack s)" and R: "let_p s = Some (Normal u s')"
  shows "balanced st0 l0 s'"
proof (cases "oper s = zap s ''let''")
  case False
  with R have "and_p s = Some (Normal u s')" by (simp add: let_p_def)
  then show ?thesis by (rule and_p_balanced[OF P])
next
  case True
  with R P show ?thesis unfolding let_p_def 
    by (auto simp: S_iff bal_simps dest!: state_dests new_cons_stacks separate_assoc_stacks)
qed

lemma define_sugar_stacks: "define_sugar s = Some (Normal u s') \<Longrightarrow> same_stacks s s'"
  unfolding define_sugar_def
  by (auto simp: M_iff same_stacks_def dest!: new_cons_stacks)

lemma sp_definition_p_balanced:
  assumes P: "pending st0 l0 0 (stack s) (lstack s)" and R: "sp_definition_p s = Some (Normal u s')"
  shows "balanced st0 l0 s'"
proof (cases "oper s = zap s ''define''")
  case False
  with R have "let_p s = Some (Normal u s')" by (simp add: sp_definition_p_def)
  then show ?thesis by (rule let_p_balanced[OF P])
next
  case True
  with R P show ?thesis unfolding sp_definition_p_def 
    by (auto simp: S_iff bal_simps dest!: state_dests define_sugar_stacks)
qed

lemma quoted_p_balanced:
  assumes P: "pending st0 l0 0 (stack s) (lstack s)" and R: "quoted_p s = Some (Normal u s')"
  shows "balanced st0 l0 s'"
proof (cases "oper s = zap s ''quote''")
  case False
  with R have "sp_definition_p s = Some (Normal u s')" by (simp add: quoted_p_def)
  then show ?thesis by (rule sp_definition_p_balanced[OF P])
next
  case True
  with R P show ?thesis unfolding quoted_p_def 
    by (auto simp: S_iff bal_simps dest!: state_dests )
qed

lemma forget_about_it_balanced:
  assumes "pending st0 l0 0 (stack s) (lstack s)" "forget_about_it s = Some (Normal u s')"
  shows "balanced st0 l0 s'"
  using assms unfolding forget_about_it_def
  by (auto simp: S_iff bal_simps dest!: state_dests)

lemma variable_p_balanced:
  assumes P: "pending st0 l0 0 (stack s) (lstack s)" and R: "variable_p s = Some (Normal u s')"
  shows "balanced st0 l0 s'"
proof (cases "symbol_p s (exp_reg s)")
  case False
  with R have "forget_about_it s = Some (Normal u s')" by (simp add: variable_p_def)
  then show ?thesis by (rule forget_about_it_balanced[OF P])
next
  case True
  with R P show ?thesis unfolding variable_p_def 
    by (auto simp: S_iff bal_simps dest!: state_dests new_cons_stacks)
qed

lemma self_eval_p_balanced:
  assumes P: "pending st0 l0 0 (stack s) (lstack s)" and R: "self_eval_p s = Some (Normal u s')"
  shows "balanced st0 l0 s'"
proof (cases "number_p s (exp_reg s) \<or> bool_p (exp_reg s) \<or> exp_reg s = NIL \<or> string_p s (exp_reg s) \<or> char_p (exp_reg s)")
  case False
  with R have "variable_p s = Some (Normal u s')" by (simp add: self_eval_p_def)
  then show ?thesis by (rule variable_p_balanced[OF P])
next
  case True
  with R P show ?thesis unfolding self_eval_p_def 
    by (auto simp: S_iff bal_simps dest!: state_dests )
qed

lemma start_balanced:
  assumes P: "pending st0 l0 0 (stack s) (lstack s)" and R: "start s = Some (Normal u s')"
  shows "balanced st0 l0 s'"
proof (cases "cbox_p s (exp_reg s)")
  case False
  with R have "self_eval_p s = Some (Normal u s')" by (simp add: start_def)
  then show ?thesis by (rule self_eval_p_balanced[OF P])
next
  case True
  with R P show ?thesis unfolding start_def 
    by (auto simp: S_iff bal_simps dest!: state_dests )
qed

lemma list_of_values_balanced:
  assumes "pending st0 l0 (Suc (Suc 0)) (stack s) (lstack s)" "list_of_values s = Some (Normal u s')"
  shows "balanced st0 l0 s'"
  using assms unfolding list_of_values_def
  by (auto simp: S_iff bal_simps dest!: state_dests)

lemma list_of_values_cont_balanced:
  assumes "pending st0 l0 (Suc (Suc 0)) (stack s) (lstack s)" "list_of_values_cont s = Some (Normal u s')"
  shows "balanced st0 l0 s'"
  using assms unfolding list_of_values_cont_def
  by (auto simp: S_iff bal_simps dest!: state_dests)

lemma list_of_values_collect_balanced:
  assumes "pending st0 l0 (Suc 0) (stack s) (lstack s)" "list_of_values_collect s = Some (Normal u s')"
  shows "balanced st0 l0 s'"
  using assms unfolding list_of_values_collect_def
  by (auto simp: S_iff bal_simps dest!: state_dests new_cons_stacks)

lemma list_of_values_collect_start_balanced:
  assumes "pending st0 l0 0 (stack s) (lstack s)" "list_of_values_collect_start s = Some (Normal u s')"
  shows "balanced st0 l0 s'"
  using assms unfolding list_of_values_collect_start_def list_of_values_collect_def
  by (auto simp: S_iff bal_simps dest!: state_dests new_cons_stacks)

lemma micro_apply_balanced:
  assumes "pending st0 l0 0 (stack s) (lstack s)" "micro_apply s = Some (Normal u s')"
  shows "balanced st0 l0 s'"
  using assms unfolding micro_apply_def
  by (auto simp: S_iff bal_simps dest!: state_dests apply_builtin_stacks extend_environment_stacks)

lemma list_of_values_collect_stop_balanced:
  assumes "pending st0 l0 (Suc 0) (stack s) (lstack s)" "list_of_values_collect_stop s = Some (Normal u s')"
  shows "balanced st0 l0 s'"
  using assms unfolding list_of_values_collect_stop_def micro_apply_def
  by (auto simp: S_iff bal_simps dest!: state_dests apply_builtin_stacks extend_environment_stacks)

lemma definition_cont_balanced:
  assumes "pending st0 l0 (Suc (Suc (Suc 0))) (stack s) (lstack s)" "definition_cont s = Some (Normal u s')"
  shows "balanced st0 l0 s'"
  using assms unfolding definition_cont_def
  by (auto simp: S_iff bal_simps dest!: state_dests define_variable_w_stacks set_variable_w_stacks)

lemma and_cont_balanced:
  assumes "pending st0 l0 (Suc (Suc 0)) (stack s) (lstack s)" "and_cont s = Some (Normal u s')"
  shows "balanced st0 l0 s'"
  using assms unfolding and_cont_def
  by (auto simp: S_iff bal_simps dest!: state_dests eval_first_of_stacks)

lemma or_cont_balanced:
  assumes "pending st0 l0 (Suc (Suc 0)) (stack s) (lstack s)" "or_cont s = Some (Normal u s')"
  shows "balanced st0 l0 s'"
  using assms unfolding or_cont_def
  by (auto simp: S_iff bal_simps dest!: state_dests eval_first_of_stacks)

lemma assignment_cont_balanced:
  assumes "pending st0 l0 (Suc (Suc (Suc 0))) (stack s) (lstack s)" "assignment_cont s = Some (Normal u s')"
  shows "balanced st0 l0 s'"
  using assms unfolding assignment_cont_def
  by (auto simp: S_iff bal_simps dest!: state_dests set_variable_w_stacks)

lemma conditional_cont_balanced:
  assumes "pending st0 l0 (Suc (Suc (Suc (Suc 0)))) (stack s) (lstack s)" "conditional_cont s = Some (Normal u s')"
  shows "balanced st0 l0 s'"
  using assms unfolding conditional_cont_def
  by (auto simp: S_iff bal_simps dest!: state_dests)

lemma eval_sequence_balanced:
  assumes "pending st0 l0 0 (stack s) (lstack s)" "eval_sequence s = Some (Normal u s')"
  shows "balanced st0 l0 s'"
  using assms unfolding eval_sequence_def
  by (auto simp: bal_simps dest!: eval_first_of_stacks)

lemma eval_sequence_cont_balanced:
  assumes "pending st0 l0 (Suc (Suc 0)) (stack s) (lstack s)" "eval_sequence_cont s = Some (Normal u s')"
  shows "balanced st0 l0 s'"
  using assms unfolding eval_sequence_cont_def
  by (auto simp: S_iff bal_simps dest!: state_dests eval_first_of_stacks)

lemma step_balanced:
  assumes B: "balanced st0 l0 s" and C: "cont_reg s \<noteq> END_LABEL" and R: "step s = Some (Normal u s')"
  shows "balanced st0 l0 s'"
proof -
  have E: "cont_reg s \<noteq> ERROR_LABEL"
    using R by (auto simp: step_def Let_def error_Normal_iff label_defs)
  from B C E have P: "pending st0 l0 (owns (cont_reg s)) (stack s) (lstack s)"
    by (simp add: balanced_def balancedL_def)
  show ?thesis
    using R P unfolding step_def Let_def
    by (auto simp: error_Normal_iff split: if_splits
        intro: start_balanced self_eval_p_balanced variable_p_balanced forget_about_it_balanced
          quoted_p_balanced sp_definition_p_balanced let_p_balanced and_p_balanced or_p_balanced
          assignment_p_balanced conditional_p_balanced lambda_p_balanced application_p_balanced
          unknown_expr_balanced list_of_values_balanced list_of_values_cont_balanced
          list_of_values_collect_start_balanced list_of_values_collect_balanced
          list_of_values_collect_stop_balanced micro_apply_balanced definition_cont_balanced
          and_cont_balanced or_cont_balanced assignment_cont_balanced conditional_cont_balanced
          eval_sequence_balanced eval_sequence_cont_balanced)
qed


section \<open>C9: the stacks after an evaluation\<close>

lemma eval_turns_balanced:
  assumes "eval_turns s = Some (Normal u s')" "balanced st0 l0 s" "cont_reg s \<noteq> END_LABEL"
  shows "cont_reg s' = END_LABEL \<and> balanced st0 l0 s'"
proof -
  let ?P = "\<lambda>s res. balanced st0 l0 s \<longrightarrow> cont_reg s \<noteq> END_LABEL \<longrightarrow>
          (\<forall>u s'. res = Normal u s' \<longrightarrow> cont_reg s' = END_LABEL \<and> balanced st0 l0 s')"
  have "?P s (Normal u s')"
  proof (rule eval_turns.raw_induct[where P = ?P, OF _ assms(1)])
    fix et :: "unit M" and t res
    assume IH: "\<And>x y. et x = Some y \<Longrightarrow> ?P x y"
      and E: "bnd step (\<lambda>_ s'. if cont_reg s' \<noteq> END_LABEL then et s' else ret () s') t = Some res"
    show "?P t res"
    proof (intro impI allI)
      fix v t' assume b: "balanced st0 l0 t" and c: "cont_reg t \<noteq> END_LABEL" and r: "res = Normal v t'"
      from E r obtain t1 where s1: "step t = Some (Normal () t1)"
        and k: "(if cont_reg t1 \<noteq> END_LABEL then et t1 else ret () t1) = Some (Normal v t')"
        by (auto simp: bnd_Normal_iff)
      have b1: "balanced st0 l0 t1" by (rule step_balanced[OF b c s1])
      show "cont_reg t' = END_LABEL \<and> balanced st0 l0 t'"
      proof (cases "cont_reg t1 = END_LABEL")
        case True
        with k b1 show ?thesis by (simp add: ret_Normal_iff)
      next
        case False
        with k have "et t1 = Some (Normal v t')" by simp
        from IH[OF this] b1 False show ?thesis by simp
      qed
    qed
  qed
  then show ?thesis using assms by simp
qed

lemma make_symbol_stacks: "make_symbol v s = Some (Normal p s') \<Longrightarrow> same_stacks s s'"
  by (auto simp: make_symbol_def M_iff Let_def same_stacks_def split: if_splits option.splits
      dest!: new_storage_stacks)


lemma zap_bang: "zap_chars SYM_MAGIC_1 SYM_MAGIC_2 SYM_MAGIC_3 ''!!'' = 0x21214E"
  by (simp add: zap_chars_def set_zap_special_def set_zap_dataA_def set_zap_dataB0_def set_zap_type_def
      SYM_MAGIC_2_def ZAP_SPECIAL_def)

lemma run_top:
  "evaluation_loop m_top = Some (Normal () (m_top\<lparr>lstack := [], val_reg := true_zap, cont_reg := END_LABEL\<rparr>))"
  unfolding evaluation_loop_def
  apply (subst bnd_def)
  apply (simp add: push_label_def ret_def m_top_def m0_def)
  apply (subst bnd_def)
  apply (simp add: jump_def upd_def)
  apply (subst eval_turns.simps)
  apply (simp add: bnd_def step_def start_def cbox_p_def special_p_def self_eval_p_def bool_p_def
      true_zap_def make_bool_values return_to_caller_def pop_label_def upd_def jump_def ret_def label_defs)
  done

lemma m_top_fields:
  "stack m_top = []" "lstack m_top = []" "val_reg m_top = NIL" "exp_reg m_top = true_zap"
  "cbslbase m_top = 0x1000" "CBSLD m_top = 8" "LSTACKD m_top = 16" "STACKD m_top = 16"
  by (simp_all add: m_top_def m0_def)

lemma m_top_cells:
  assumes "mem s = mem m_top"
  shows "car s 0x1000 = NIL" "cdr s 0x1000 = 0x1008" "car s 0x1008 = 0x1010" "cdr s 0x1008 = NIL"
    "car s 0x1010 = 0x21214E" "cdr s 0x1010 = NIL"
  using assms
  by (simp_all add: car_def cdr_def ptr_add_def ZAP_SPECIAL_def m_top_def zap_bang NIL_def)

lemma top_binding:
  assumes "mem s = mem m_top"
  shows "binding_in_env s 0x21214E 0x1000 = Some 0x1010"
proof -
  note c = m_top_cells[OF assms]
  have 1: "binding_in_frame_loop s 0x21214E 0x1008 0x1010 = Some 0x1010"
    by (subst binding_in_frame_loop.simps) (simp add: NIL_def)
  have 2: "binding_in_frame s 0x21214E 0x1008 = Some 0x1010"
    unfolding binding_in_frame_def
    by (subst binding_in_frame_loop.simps)
      (simp add: NIL_def first_binding_def binding_variable_def equal_p_def c 1)
  have 3: "binding_in_env_loop s 0x21214E NIL 0x1010 = Some 0x1010"
    by (subst binding_in_env_loop.simps) (simp add: NIL_def)
  show ?thesis
    unfolding binding_in_env_def
    by (subst binding_in_env_loop.simps) (simp add: first_frame_def parent_def c 2 3, simp add: NIL_def)
qed

lemma run_micro_eval:
  "\<exists>s'. micro_eval_ok 0x1000 m_top = Some (Normal () s') \<and> out s' = [Text ''Evaluating...'', Written true_zap]"
proof -
  have e: "evaluation_loop (printf ''Evaluating...'' m_top) =
      Some (Normal () (printf ''Evaluating...'' m_top\<lparr>lstack := [], val_reg := true_zap, cont_reg := END_LABEL\<rparr>))"
    unfolding evaluation_loop_def
    apply (subst bnd_def)
    apply (simp add: push_label_def ret_def m_top_def m0_def printf_def)
    apply (subst bnd_def)
    apply (simp add: jump_def upd_def)
    apply (subst eval_turns.simps)
    apply (simp add: bnd_def step_def start_def cbox_p_def special_p_def self_eval_p_def bool_p_def
        true_zap_def make_bool_values return_to_caller_def pop_label_def upd_def jump_def ret_def label_defs)
    done
  have s: "make_symbol ''!!'' t = Some (Normal 0x21214E t)" for t
    by (simp add: make_symbol_def cstr_def Let_def ret_def zap_bang)
  have v: "val_reg (printf ''Evaluating...'' m_top\<lparr>lstack := [], val_reg := true_zap, cont_reg := END_LABEL\<rparr>) = true_zap"
    by simp
  have "micro_eval_ok 0x1000 m_top =
      Some (Normal () (set_cdr 0x1010 true_zap (write_call true_zap
        (printf ''Evaluating...'' m_top\<lparr>lstack := [], val_reg := true_zap, cont_reg := END_LABEL\<rparr>))))"
  proof -
    have m: "mem (write_call v t) = mem t" "mem (printf x t) = mem t" "val_reg (write_call v t) = val_reg t" for v x t
      by (simp_all add: write_call_def printf_def)
    show ?thesis
      unfolding micro_eval_ok_def
      by (simp add: bnd_def upd_def e s set_variable_w_def opt_def top_binding m NIL_def)
  qed
  then show ?thesis
    by (simp add: set_cdr_def poke_def write_call_def printf_def m_top_def m0_def)
qed

text \<open>
  C9. When \<open>evaluation_loop\<close> returns (it returns when \<open>cont_reg\<close> is \<open>END_LABEL\<close>), the
  pointer stack and the label stack are the stacks it was entered with; an error leaves the
  loop by the recovery jump instead, which is no return. So the arm \<open>micro_eval_ok\<close> of the
  read-eval-print loop, entered with empty stacks, returns with empty stacks.
\<close>

theorem evaluation_loop_stacks:
  "(evaluation_loop s = Some (Normal u s') \<longrightarrow>
      cont_reg s' = END_LABEL \<and> stack s' = stack s \<and> lstack s' = lstack s) \<and>
   (micro_eval_ok b s = Some (Normal u s') \<longrightarrow> stack s = [] \<longrightarrow> lstack s = [] \<longrightarrow>
      stack s' = [] \<and> lstack s' = [])"
proof -
  have A: "cont_reg t' = END_LABEL \<and> stack t' = stack t \<and> lstack t' = lstack t"
    if "evaluation_loop t = Some (Normal v t')" for t t' v
  proof -
    from that obtain t1 where t1: "t1 = t\<lparr>lstack := END_LABEL # lstack t, cont_reg := START_LABEL\<rparr>"
      and r: "eval_turns t1 = Some (Normal v t')"
      by (auto simp: evaluation_loop_def S_iff)
    have "balanced (stack t) (lstack t) t1"
      by (simp add: t1 balanced_def balancedL_jump pending_def)
    from eval_turns_balanced[OF r this] have "cont_reg t' = END_LABEL" "balanced (stack t) (lstack t) t'"
      by (simp_all add: t1)
    then show ?thesis by (simp add: balanced_def balancedL_def label_defs)
  qed
  have B: "stack t' = [] \<and> lstack t' = []"
    if "micro_eval_ok b t = Some (Normal v t')" "stack t = []" "lstack t = []" for t t' v
    using that unfolding micro_eval_ok_def
    by (auto simp: S_iff dest!: A make_symbol_stacks set_variable_w_stacks same_stacksD)
  show ?thesis using A B by blast
qed

theorem evaluation_loop_stacks_witness:
  "evaluation_loop m_top = Some (Normal () (m_top\<lparr>lstack := [], val_reg := true_zap, cont_reg := END_LABEL\<rparr>)) \<and>
   stack (m_top\<lparr>lstack := [], val_reg := true_zap, cont_reg := END_LABEL\<rparr>) = stack m_top \<and>
   lstack (m_top\<lparr>lstack := [], val_reg := true_zap, cont_reg := END_LABEL\<rparr>) = lstack m_top \<and>
   (\<exists>s'. micro_eval_ok 0x1000 m_top = Some (Normal () s') \<and> stack m_top = [] \<and> lstack m_top = [] \<and>
      stack s' = [] \<and> lstack s' = [])"
proof -
  obtain s' where r: "micro_eval_ok 0x1000 m_top = Some (Normal () s')"
    using run_micro_eval by blast
  have e: "stack m_top = []" "lstack m_top = []" by (simp_all add: m_top_def m0_def)
  from evaluation_loop_stacks[of m_top "()" s' "0x1000"] r e
  have "stack s' = [] \<and> lstack s' = []" by simp
  with evaluation_loop_stacks[of m_top "()" "m_top\<lparr>lstack := [], val_reg := true_zap, cont_reg := END_LABEL\<rparr>" "0x1000"]
    run_top r e
  show ?thesis by simp
qed


section \<open>The words of the special forms\<close>

lemma keywords_ok_zap0: "zap s = zap0 \<Longrightarrow> keywords_ok s"
  using keywords_ok_m0 by (simp add: keywords_ok_def m0_def)

lemma and_words:
  assumes "keywords_ok s"
  shows "zap s ''and'' \<noteq> zap s ''quote''" "zap s ''and'' \<noteq> zap s ''define''"
    "zap s ''and'' \<noteq> zap s ''let''"
  using zap_eq_iff[OF assms, of "''and''" "''quote''"] zap_eq_iff[OF assms, of "''and''" "''define''"]
    zap_eq_iff[OF assms, of "''and''" "''let''"]
  by (simp_all add: reserved_words_def)

lemma step_and_p:
  assumes "keywords_ok s" "cont_reg s = QUOTED_P_LABEL" "oper s = zap s ''and''"
  shows "step s = and_p s"
  using assms and_words[OF assms(1)]
  by (simp add: step_def Let_def label_defs quoted_p_def sp_definition_p_def let_p_def)

lemma m_and_cells:
  assumes "mem s = mem m_and"
  shows "car s 0x1000 = zap0 ''and''" "cdr s 0x1000 = 0x1008"
    "car s 0x1008 = false_zap" "cdr s 0x1008 = 0x1010"
    "car s 0x1010 = 0x1018" "cdr s 0x1010 = NIL"
proof -
  have z: "zap0 ''and'' = 0x56" by (simp add: zap0_def reserved_words_def)
  show "car s 0x1000 = zap0 ''and''" "cdr s 0x1000 = 0x1008"
    "car s 0x1008 = false_zap" "cdr s 0x1008 = 0x1010"
    "car s 0x1010 = 0x1018" "cdr s 0x1010 = NIL"
    using assms
    by (simp_all add: car_def cdr_def ptr_add_def ZAP_SPECIAL_def m_and_def z false_zap_def
        make_bool_values NIL_def)
qed

lemma m_and_cbox:
  assumes "cbslbase s = 0x1000" "CBSLD s = 16"
  shows "cbox_p s 0x1000" "cbox_p s 0x1008" "cbox_p s 0x1010" "\<not> cbox_p s false_zap"
  using assms
  by (simp_all add: cbox_p_def special_p_def quadword_aligned_p_def ptr_add_def false_zap_def
      make_bool_values)

lemma m_and_list:
  assumes "mem s = mem m_and" "cbslbase s = 0x1000" "CBSLD s = 16"
  shows "list_p s 0x1000 = Some True"
proof -
  note c = m_and_cells[OF assms(1)] m_and_cbox[OF assms(2,3)]
  have 1: "list_p s 0 = Some True" by (subst list_p.simps) (simp add: NIL_def)
  have 2: "list_p s 0x1010 = Some True" by (subst list_p.simps) (simp add: c 1 NIL_def)
  have 3: "list_p s 0x1008 = Some True" by (subst list_p.simps) (simp add: c 2 NIL_def)
  show ?thesis by (subst list_p.simps) (simp add: c 3 NIL_def)
qed


section \<open>C7: the syntax check of cond\<close>

lemma list_p_NIL: "list_p s NIL = Some True"
  by (subst list_p.simps) simp

lemma hlist_list_p: "hlist s p xs \<Longrightarrow> list_p s p = Some True"
  by (induction xs arbitrary: p) (subst list_p.simps, simp)+

lemma length_loop_hlist: "hlist s p xs \<Longrightarrow> length_loop s p n = Some (n + length xs)"
  by (induction xs arbitrary: p n) (subst length_loop.simps, simp)+

lemma hlist_length_c: "hlist s p xs \<Longrightarrow> length_c s p = Some (length xs)"
  by (simp add: length_c_def length_loop_hlist)

lemma hlist_NIL_iff: "hlist s p xs \<Longrightarrow> (p = NIL) = (xs = [])"
  by (cases xs) auto

lemma clause_ok_shape:
  assumes "cbox_p s cur" "clause_shape s (car s cur) sh" "(cdr s cur = NIL) = (rest = [])"
  shows "clause_ok s cur len =
     Some (\<exists>es. sh = Some es \<and> es \<noteq> [] \<and> (hd es = zap s ''else'' \<longrightarrow> rest = [] \<and> len \<noteq> 0 \<and> 2 \<le> length es))"
proof (cases sh)
  case None
  with assms have l: "list_p s (car s cur) = Some False" by (simp add: clause_shape_def)
  then show ?thesis using assms(1) None by (simp add: clause_ok_def)
next
  case (Some es)
  with assms have h: "hlist s (car s cur) es" by (simp add: clause_shape_def)
  show ?thesis
  proof (cases es)
    case Nil
    with h have "car s cur = NIL" by simp
    then show ?thesis using Some Nil by (simp add: clause_ok_def)
  next
    case (Cons x xs)
    with h have n: "car s cur \<noteq> NIL" and x: "car s (car s cur) = x" by simp_all
    show ?thesis
      using assms(1,3) n x Some Cons hlist_list_p[OF h] hlist_length_c[OF h]
      by (auto simp: clause_ok_def)
  qed
qed

lemma list_of_clauses_loop_shapes:
  "hlist s p cs \<Longrightarrow> list_all2 (clause_shape s) cs shs \<Longrightarrow>
   list_of_clauses_loop s p len = Some (clauses_ok_from (zap s ''else'') len shs)"
proof (induction cs arbitrary: p len shs)
  case Nil
  then show ?case by (subst list_of_clauses_loop.simps) simp
next
  case (Cons c cs)
  from Cons.prems(2) obtain sh rest where shs: "shs = sh # rest"
    and sh: "clause_shape s c sh" and r: "list_all2 (clause_shape s) cs rest"
    by (auto simp: list_all2_Cons1)
  from Cons.prems(1) have p: "p \<noteq> NIL" "cbox_p s p" "car s p = c" "hlist s (cdr s p) cs" by simp_all
  have e: "(cdr s p = NIL) = (rest = [])"
    using hlist_NIL_iff[OF p(4)] list_all2_lengthD[OF r] by auto
  have ok: "clause_ok s p len =
     Some (\<exists>es. sh = Some es \<and> es \<noteq> [] \<and> (hd es = zap s ''else'' \<longrightarrow> rest = [] \<and> len \<noteq> 0 \<and> 2 \<le> length es))"
    using clause_ok_shape[OF p(2) _ e] sh p(3) by simp
  show ?case
    by (subst list_of_clauses_loop.simps) (simp add: p ok shs Cons.IH[OF p(4) r])
qed

lemma all_less_Suc_shift: "(\<forall>i<Suc n. P i) \<longleftrightarrow> P 0 \<and> (\<forall>i<n. P (Suc i))"
  by (auto simp: less_Suc_eq_0_disj)

lemma clauses_ok_from_spec:
  "clauses_ok_from e len shs \<longleftrightarrow>
     (\<forall>i < length shs. \<exists>es. shs ! i = Some es \<and> es \<noteq> [] \<and>
        (hd es = e \<longrightarrow> Suc i = length shs \<and> len + i \<noteq> 0 \<and> 2 \<le> length es))"
proof (induction shs arbitrary: len)
  case Nil
  then show ?case by simp
next
  case (Cons sh rest)
  show ?case
    by (simp add: Cons.IH all_less_Suc_shift)
qed

lemma list_of_clauses_p_spec:
  assumes "hlist s p cs" "list_all2 (clause_shape s) cs shs" "cs \<noteq> []"
  shows "list_of_clauses_p s p = Some (cond_clauses_spec (zap s ''else'') shs)"
proof -
  from assms(2,3) have "shs \<noteq> []" by (auto simp: list_all2_conv_all_nth)
  then show ?thesis
    unfolding list_of_clauses_p_def list_of_clauses_loop_shapes[OF assms(1,2)]
    by (simp add: clauses_ok_from_spec cond_clauses_spec_def)
qed

lemma cond_words:
  assumes "keywords_ok s"
  shows "zap s ''cond'' \<noteq> zap s ''quote''" "zap s ''cond'' \<noteq> zap s ''define''"
    "zap s ''cond'' \<noteq> zap s ''let''" "zap s ''cond'' \<noteq> zap s ''and''" "zap s ''cond'' \<noteq> zap s ''or''"
    "zap s ''cond'' \<noteq> zap s ''set!''" "zap s ''cond'' \<noteq> zap s ''if''"
  using zap_eq_iff[OF assms, of "''cond''" "''quote''"] zap_eq_iff[OF assms, of "''cond''" "''define''"]
    zap_eq_iff[OF assms, of "''cond''" "''let''"] zap_eq_iff[OF assms, of "''cond''" "''and''"]
    zap_eq_iff[OF assms, of "''cond''" "''or''"] zap_eq_iff[OF assms, of "''cond''" "''set!''"]
    zap_eq_iff[OF assms, of "''cond''" "''if''"]
  by (simp_all add: reserved_words_def)

lemma step_conditional_p:
  assumes "keywords_ok s" "cont_reg s = QUOTED_P_LABEL" "oper s = zap s ''cond''"
  shows "step s = conditional_p s"
  using assms cond_words[OF assms(1)]
  by (simp add: step_def Let_def label_defs quoted_p_def sp_definition_p_def let_p_def and_p_def
      or_p_def assignment_p_def)

lemma conditional_p_cond:
  assumes "keywords_ok s" "syntaxcheck s" "oper s = zap s ''cond''"
    "hlist s (exp_reg s) (zap s ''cond'' # cs)" "list_all2 (clause_shape s) cs shs"
  shows "conditional_p s =
     (if cond_clauses_spec (zap s ''else'') shs then conditional_start s
      else Some (Normal () (conditional_syntax_error s)))"
proof -
  note w = cond_words[OF assms(1)]
  from assms(4) have c: "car s (exp_reg s) = zap s ''cond''" and h: "hlist s (cdr s (exp_reg s)) cs"
    by simp_all
  have pl: "proper_length (exp_reg s) s = Some (Normal (Some (Suc (length cs))) s)"
    using hlist_list_p[OF assms(4)] hlist_length_c[OF assms(4)]
    by (simp add: proper_length_def bnd_def opt_def ret_def)
  show ?thesis
  proof (cases "cs = []")
    case True
    with assms(5) have "shs = []" by simp
    then have n: "\<not> cond_clauses_spec (zap s ''else'') shs" by (simp add: cond_clauses_spec_def)
    show ?thesis
      unfolding conditional_p_def
      by (simp add: assms(2,3) pl bnd_def opt_def c w True n eval_error_def upd_def
          conditional_syntax_error_def)
  next
    case False
    have lc: "list_of_clauses_p s (operands s (exp_reg s)) = Some (cond_clauses_spec (zap s ''else'') shs)"
      unfolding operands_def by (rule list_of_clauses_p_spec[OF h assms(5) False])
    have l2: "Suc 0 \<le> length cs" using False by (cases cs) auto
    show ?thesis
      unfolding conditional_p_def
      by (simp add: assms(2,3) pl bnd_def opt_def c w lc l2 eval_error_def upd_def
          conditional_syntax_error_def)
  qed
qed

lemma same_heap_prims:
  assumes "mem t = mem s" "cbslbase t = cbslbase s" "CBSLD t = CBSLD s"
  shows "car t = car s" "cdr t = cdr s" "cbox_p t = cbox_p s"
  using assms by (simp_all add: car_def cdr_def cbox_p_def fun_eq_iff)

lemma hlist_same_heap:
  assumes "mem t = mem s" "cbslbase t = cbslbase s" "CBSLD t = CBSLD s"
  shows "hlist t p xs = hlist s p xs"
  by (induction xs arbitrary: p) (simp_all add: same_heap_prims[OF assms])

lemma list_p_same_heap:
  assumes "mem t = mem s" "cbslbase t = cbslbase s" "CBSLD t = CBSLD s" "list_p s p = Some r"
  shows "list_p t p = Some r"
proof -
  note h = same_heap_prims[OF assms(1,2,3)]
  have "s = s \<longrightarrow> list_p t p = Some r"
  proof (rule list_p.raw_induct[where P = "\<lambda>s' cur y. s' = s \<longrightarrow> list_p t cur = Some y", OF _ assms(4)])
    fix list_p' s' cur y
    assume ih: "\<And>s' cur y. list_p' s' cur = Some y \<Longrightarrow> s' = s \<longrightarrow> list_p t cur = Some y"
      and b: "(if cur \<noteq> NIL then if cbox_p s' cur then list_p' s' (cdr s' cur) else Some False
               else Some True) = Some y"
    show "s' = s \<longrightarrow> list_p t cur = Some y"
    proof
      assume e: "s' = s"
      show "list_p t cur = Some y"
        using b ih[of s "cdr s cur" y] e by (subst list_p.simps) (auto simp: h split: if_splits)
    qed
  qed
  then show ?thesis by simp
qed

lemma clause_shape_same_heap:
  assumes "mem t = mem s" "cbslbase t = cbslbase s" "CBSLD t = CBSLD s" "clause_shape s c sh"
  shows "clause_shape t c sh"
  using assms(4) hlist_same_heap[OF assms(1,2,3)] list_p_same_heap[OF assms(1,2,3)]
  by (auto simp: clause_shape_def split: option.splits)

lemma step_start_cbox:
  assumes "cont_reg s = START_LABEL" "cbox_p s (exp_reg s)"
  shows "step s = Some (Normal () (s\<lparr>oper := car s (exp_reg s), cont_reg := QUOTED_P_LABEL\<rparr>))"
  using assms by (simp add: step_def Let_def start_def jump_def upd_def operator_def)

lemma conditional_p_improper:
  assumes "keywords_ok s" "syntaxcheck s" "oper s = zap s ''cond''" "list_p s (exp_reg s) = Some False"
  shows "conditional_p s = Some (Normal () (conditional_syntax_error s))"
  unfolding conditional_p_def
  by (simp add: assms proper_length_def bnd_def opt_def ret_def eval_error_def upd_def
      conditional_syntax_error_def)

lemma conditional_start_room:
  assumes "keywords_ok s" "car s (exp_reg s) = zap s ''cond''"
    "length (stack s) + 4 \<le> STACKD s" "length (lstack s) < LSTACKD s"
  shows "conditional_start s = Some (Normal ()
     (s\<lparr>exp_reg := car s (car s (cdr s (exp_reg s))), cont_reg := START_LABEL,
        stack := cdr s (car s (cdr s (exp_reg s))) # cdr s (cdr s (exp_reg s)) # env_reg s
                  # exp_reg s # stack s,
        lstack := CONDITIONAL_CONT_LABEL # lstack s\<rparr>))"
proof -
  have cl: "clauses (exp_reg s) t = Some (Normal (cdr s (exp_reg s)) t)"
    if "mem t = mem s" "zap t = zap s" for t
  proof -
    from that(1) have "car t = car s" "cdr t = cdr s"
      by (simp_all add: car_def cdr_def fun_eq_iff)
    then show ?thesis
      using that(2) cond_words(7)[OF assms(1)] assms(2)
      by (simp add: clauses_def operator_def operands_def ret_def)
  qed
  have m: "car (t\<lparr>exp_reg := e\<rparr>) p = car t p" "cdr (t\<lparr>exp_reg := e\<rparr>) p = cdr t p"
      "car (t\<lparr>stack := st1\<rparr>) p = car t p" "cdr (t\<lparr>stack := st1\<rparr>) p = cdr t p"
      "car (t\<lparr>lstack := ls1\<rparr>) p = car t p" "cdr (t\<lparr>lstack := ls1\<rparr>) p = cdr t p"
    for t e p st1 ls1
    by (simp_all add: car_def cdr_def)
  show ?thesis
    unfolding conditional_start_def
    using assms(3,4)
    by (simp add: bnd_def push_pointer_def push_label_def ret_def upd_def jump_def cl m)
qed

lemma conditional_start_full:
  assumes "keywords_ok s" "car s (exp_reg s) = zap s ''cond''"
    "\<not> (length (stack s) + 4 \<le> STACKD s \<and> length (lstack s) < LSTACKD s)"
  shows "\<exists>t. conditional_start s = Some (Longjmp t) \<and>
     (out t = out s @ [Text ''*** Pointer-stack overflow ***''] \<or>
      out t = out s @ [Text ''*** Label-stack overflow ***''])"
proof -
  have cl: "clauses (exp_reg s) t = Some (Normal (cdr s (exp_reg s)) t)"
    if "mem t = mem s" "zap t = zap s" for t
  proof -
    from that(1) have "car t = car s" "cdr t = cdr s"
      by (simp_all add: car_def cdr_def fun_eq_iff)
    then show ?thesis
      using that(2) cond_words(7)[OF assms(1)] assms(2)
      by (simp add: clauses_def operator_def operands_def ret_def)
  qed
  show ?thesis
    unfolding conditional_start_def
    using assms(3)
    by (auto simp: bnd_def push_pointer_def push_label_def ret_def upd_def jump_def cl
        goto_recoverable_error_def printf_def)
qed

text \<open>
  C7, as the code has it. With syntax checking enabled, take a state at \<open>START_LABEL\<close> whose
  expression is a pair with the head \<open>cond\<close>. The first turn of the loop goes to the states
  of the special forms, with the head in \<open>oper\<close>. The second turn raises the syntax error
  (the message, the form, \<open>ERROR_LABEL\<close>, from where the next turn leaves by the recovery
  jump) when the form is no list, and, when it is a list whose clauses are lists or are found
  not to be lists by \<open>list_p\<close>, unless there is a clause, every clause is a list of at least
  one element, and a clause whose head is \<open>else\<close> is the last one, is not the first one and
  has at least two elements. Otherwise no syntax error is raised: with room for four
  pointers and a label on the stacks the turn returns with the test of the first clause in
  \<open>exp_reg\<close>, at \<open>START_LABEL\<close>, with nothing printed, and without that room it leaves with
  a stack overflow.
\<close>

theorem cond_syntax_check:
  assumes "keywords_ok s" "syntaxcheck s" "cont_reg s = START_LABEL" "cbox_p s (exp_reg s)"
    "car s (exp_reg s) = zap s ''cond''"
  shows "step s = Some (Normal () (s\<lparr>oper := zap s ''cond'', cont_reg := QUOTED_P_LABEL\<rparr>)) \<and>
    (let q = s\<lparr>oper := zap s ''cond'', cont_reg := QUOTED_P_LABEL\<rparr> in
       (list_p s (exp_reg s) = Some False \<longrightarrow>
          step q = Some (Normal () (conditional_syntax_error q))) \<and>
       (hlist s (exp_reg s) (zap s ''cond'' # cs) \<and> list_all2 (clause_shape s) cs shs \<longrightarrow>
          (\<not> cond_clauses_spec (zap s ''else'') shs \<longrightarrow>
             step q = Some (Normal () (conditional_syntax_error q))) \<and>
          (cond_clauses_spec (zap s ''else'') shs \<longrightarrow>
             (length (stack s) + 4 \<le> STACKD s \<and> length (lstack s) < LSTACKD s \<longrightarrow>
                step q = Some (Normal ()
                  (q\<lparr>exp_reg := car s (car s (cdr s (exp_reg s))), cont_reg := START_LABEL,
                     stack := cdr s (car s (cdr s (exp_reg s))) # cdr s (cdr s (exp_reg s))
                               # env_reg s # exp_reg s # stack s,
                     lstack := CONDITIONAL_CONT_LABEL # lstack s\<rparr>))) \<and>
             (\<not> (length (stack s) + 4 \<le> STACKD s \<and> length (lstack s) < LSTACKD s) \<longrightarrow>
                (\<exists>t. step q = Some (Longjmp t) \<and>
                   (out t = out s @ [Text ''*** Pointer-stack overflow ***''] \<or>
                    out t = out s @ [Text ''*** Label-stack overflow ***'']))))) \<and>
       step (conditional_syntax_error q) = Some (Longjmp (conditional_syntax_error q)))"
proof -
  define q where "q = s\<lparr>oper := zap s ''cond'', cont_reg := QUOTED_P_LABEL\<rparr>"
  have f: "mem q = mem s" "cbslbase q = cbslbase s" "CBSLD q = CBSLD s" "zap q = zap s"
    "exp_reg q = exp_reg s" "syntaxcheck q" "oper q = zap q ''cond''" "cont_reg q = QUOTED_P_LABEL"
    "stack q = stack s" "lstack q = lstack s" "STACKD q = STACKD s" "LSTACKD q = LSTACKD s"
    "env_reg q = env_reg s" "out q = out s"
    using assms(2) by (simp_all add: q_def)
  note h = same_heap_prims[OF f(1,2,3)]
  have k: "keywords_ok q" using assms(1) by (simp add: keywords_ok_def f)
  have st: "step q = conditional_p q" by (rule step_conditional_p[OF k f(8,7)])
  have c: "car q (exp_reg q) = zap q ''cond''" using assms(5) by (simp add: h f)
  have 1: "step s = Some (Normal () q)"
    using step_start_cbox[OF assms(3,4)] assms(5) by (simp add: q_def)
  have 2: "step q = Some (Normal () (conditional_syntax_error q))"
    if "list_p s (exp_reg s) = Some False"
    using conditional_p_improper[OF k f(6,7)] list_p_same_heap[OF f(1,2,3) that] by (simp add: st f)
  have 3: "step q = (if cond_clauses_spec (zap s ''else'') shs then conditional_start q
      else Some (Normal () (conditional_syntax_error q)))"
    if "hlist s (exp_reg s) (zap s ''cond'' # cs)" "list_all2 (clause_shape s) cs shs"
  proof -
    have a: "hlist q (exp_reg q) (zap q ''cond'' # cs)"
      using that(1) by (simp only: hlist_same_heap[OF f(1,2,3)] f)
    have b: "list_all2 (clause_shape q) cs shs"
      using that(2) clause_shape_same_heap[OF f(1,2,3)] by (auto elim: list_all2_mono)
    show ?thesis using conditional_p_cond[OF k f(6,7) a b] by (simp add: st f)
  qed
  have 4: "conditional_start q = Some (Normal ()
                  (q\<lparr>exp_reg := car s (car s (cdr s (exp_reg s))), cont_reg := START_LABEL,
                     stack := cdr s (car s (cdr s (exp_reg s))) # cdr s (cdr s (exp_reg s))
                               # env_reg s # exp_reg s # stack s,
                     lstack := CONDITIONAL_CONT_LABEL # lstack s\<rparr>))"
    if "length (stack s) + 4 \<le> STACKD s" "length (lstack s) < LSTACKD s"
    using conditional_start_room[OF k c] that by (simp add: f h)
  have 5: "\<exists>t. conditional_start q = Some (Longjmp t) \<and>
                   (out t = out s @ [Text ''*** Pointer-stack overflow ***''] \<or>
                    out t = out s @ [Text ''*** Label-stack overflow ***''])"
    if "\<not> (length (stack s) + 4 \<le> STACKD s \<and> length (lstack s) < LSTACKD s)"
    using conditional_start_full[OF k c] that by (simp add: f)
  have 6: "step (conditional_syntax_error q) = Some (Longjmp (conditional_syntax_error q))"
    by (simp add: step_def Let_def conditional_syntax_error_def label_defs goto_recoverable_error_def)
  show ?thesis
    unfolding Let_def q_def[symmetric]
    by (intro conjI impI) (simp_all add: 1 2 3 4 5 6)
qed

lemma zap0_values: "zap0 ''cond'' = 0x98" "zap0 ''else'' = 0xA8" "zap0 ''if'' = 0xA6"
  by (simp_all add: zap0_def reserved_words_def)

lemma small_cbox:
  assumes "cbslbase s = 0x1000" "CBSLD s = 8"
  shows "cbox_p s 0x1000" "cbox_p s 0x1008" "cbox_p s 0x1010" "cbox_p s 0x1018"
    "\<not> cbox_p s true_zap"
  using assms
  by (simp_all add: cbox_p_def special_p_def quadword_aligned_p_def ptr_add_def true_zap_def
      make_bool_values)

lemma m_cond_cells:
  assumes "mem s = mem m_cond"
  shows "car s 0x1000 = zap0 ''cond''" "cdr s 0x1000 = 0x1008"
    "car s 0x1008 = 0x1010" "cdr s 0x1008 = NIL"
    "car s 0x1010 = true_zap" "cdr s 0x1010 = NIL"
  using assms
  by (simp_all add: car_def cdr_def ptr_add_def ZAP_SPECIAL_def m_cond_def zap0_values true_zap_def
      make_bool_values NIL_def)

lemma m_cond_else_cells:
  assumes "mem s = mem m_cond_else"
  shows "car s 0x1000 = zap0 ''cond''" "cdr s 0x1000 = 0x1008"
    "car s 0x1008 = 0x1010" "cdr s 0x1008 = NIL"
    "car s 0x1010 = zap0 ''else''" "cdr s 0x1010 = 0x1018"
    "car s 0x1018 = true_zap" "cdr s 0x1018 = NIL"
  using assms
  by (simp_all add: car_def cdr_def ptr_add_def ZAP_SPECIAL_def m_cond_else_def zap0_values true_zap_def
      make_bool_values NIL_def)

lemma m_cond_lists:
  assumes "mem s = mem m_cond" "cbslbase s = 0x1000" "CBSLD s = 8"
  shows "hlist s 0x1000 [zap0 ''cond'', 0x1010]" "hlist s 0x1010 [true_zap]"
  using m_cond_cells[OF assms(1)] small_cbox[OF assms(2,3)]
  by (simp_all add: NIL_def)

lemma m_cond_else_lists:
  assumes "mem s = mem m_cond_else" "cbslbase s = 0x1000" "CBSLD s = 8"
  shows "hlist s 0x1000 [zap0 ''cond'', 0x1010]" "hlist s 0x1010 [zap0 ''else'', true_zap]"
  using m_cond_else_cells[OF assms(1)] small_cbox[OF assms(2,3)]
  by (simp_all add: NIL_def)

lemma m_cond_run: "evaluation_loop m_cond = Some (Normal () m_cond_result)"
proof -
  define p0 where "p0 = m_cond\<lparr>lstack := [END_LABEL], cont_reg := START_LABEL\<rparr>"
  define p1 where "p1 = m_cond\<lparr>lstack := [END_LABEL], cont_reg := QUOTED_P_LABEL, oper := zap0 ''cond''\<rparr>"
  define p2 where "p2 = p1\<lparr>stack := [NIL, NIL, NIL, 0x1000], lstack := [CONDITIONAL_CONT_LABEL, END_LABEL],
     exp_reg := true_zap, cont_reg := START_LABEL\<rparr>"
  define p3 where "p3 = p2\<lparr>val_reg := true_zap, lstack := [END_LABEL], cont_reg := CONDITIONAL_CONT_LABEL\<rparr>"
  have f: "mem p0 = mem m_cond" "cbslbase p0 = 0x1000" "CBSLD p0 = 8"
    "mem p1 = mem m_cond" "cbslbase p1 = 0x1000" "CBSLD p1 = 8" "zap p1 = zap0"
    "cbslbase p2 = 0x1000" "CBSLD p2 = 8"
    by (simp_all add: p0_def p1_def p2_def m_cond_def m0_def)
  have s0: "step p0 = Some (Normal () p1)"
  proof -
    have g: "cont_reg p0 = START_LABEL" "exp_reg p0 = 0x1000"
      by (simp_all add: p0_def m_cond_def m0_def)
    have "p0\<lparr>oper := zap0 ''cond'', cont_reg := QUOTED_P_LABEL\<rparr> = p1"
      by (simp add: p0_def p1_def)
    then show ?thesis
      using small_cbox(1)[OF f(2,3)] m_cond_cells(1)[OF f(1)]
      by (simp add: step_def Let_def start_def jump_def upd_def operator_def g)
  qed
  have k: "keywords_ok p1" by (rule keywords_ok_zap0[OF f(7)])
  have sh: "list_all2 (clause_shape p1) [0x1010] [Some [true_zap]]"
    using m_cond_lists(2)[OF f(4,5,6)] by (simp add: clause_shape_def)
  have sp: "cond_clauses_spec (zap p1 ''else'') [Some [true_zap]]"
    by (simp add: cond_clauses_spec_def f(7) zap0_values true_zap_def make_bool_values)
  have e1: "exp_reg p1 = 0x1000" "oper p1 = zap p1 ''cond''" "syntaxcheck p1" "cont_reg p1 = QUOTED_P_LABEL"
    by (simp_all add: p1_def m_cond_def m0_def)
  have h1: "hlist p1 (exp_reg p1) [zap p1 ''cond'', 0x1010]"
    using m_cond_lists(1)[OF f(4,5,6)] by (simp add: e1 f(7))
  have "step p1 = conditional_start p1"
    using step_conditional_p[OF k e1(4,2)] conditional_p_cond[OF k e1(3,2) h1 sh] sp by simp
  also have "\<dots> = Some (Normal () p2)"
  proof -
    have cl: "clauses 0x1000 t = Some (Normal 0x1008 t)" if "mem t = mem m_cond" "zap t = zap0" for t
      using m_cond_cells[OF that(1)] that(2)
      by (simp add: clauses_def operator_def operands_def ret_def zap0_values)
    have m: "mem (p1\<lparr>stack := st\<rparr>) = mem m_cond" "zap (p1\<lparr>stack := st\<rparr>) = zap0" for st
      by (simp_all add: f)
    have c: "cdr (p1\<lparr>stack := st, exp_reg := e\<rparr>) 0x1008 = NIL" "car (p1\<lparr>stack := st, exp_reg := e\<rparr>) 0x1008 = 0x1010"
      "cdr (p1\<lparr>stack := st, lstack := ls, exp_reg := e\<rparr>) 0x1010 = NIL"
      "car (p1\<lparr>stack := st, lstack := ls, exp_reg := e\<rparr>) 0x1010 = true_zap" for st e ls
      by (simp_all add: m_cond_cells f)
    have r: "length (stack p1) = 0" "STACKD p1 = 16" "LSTACKD p1 = 16" "length (lstack p1) = 1"
      "env_reg p1 = NIL" "stack p1 = []" "lstack p1 = [END_LABEL]"
      by (simp_all add: p1_def m_cond_def m0_def)
    show ?thesis
      unfolding conditional_start_def
      by (simp add: bnd_def push_pointer_def push_label_def ret_def upd_def jump_def e1 r cl m
          m_cond_cells f p2_def)
  qed
  finally have s1: "step p1 = Some (Normal () p2)" .
  have s2: "step p2 = Some (Normal () p3)"
    using small_cbox(5)[OF f(8,9)]
    by (simp add: step_def Let_def start_def self_eval_p_def bool_p_def bnd_def upd_def
        return_to_caller_def pop_label_def ret_def jump_def p2_def p3_def p1_def m_cond_def m0_def label_defs)
  have s3: "step p3 = Some (Normal () m_cond_result)"
    by (simp add: step_def Let_def conditional_cont_def bnd_def pop_pointer_def upd_def ret_def
        return_to_caller_def pop_label_def jump_def p3_def p2_def p1_def m_cond_result_def m_cond_def m0_def
        label_defs true_zap_def false_zap_def make_bool_values NIL_def)
  have c: "cont_reg p1 \<noteq> END_LABEL" "cont_reg p2 \<noteq> END_LABEL" "cont_reg p3 \<noteq> END_LABEL"
    "cont_reg m_cond_result = END_LABEL"
    by (simp_all add: p1_def p2_def p3_def m_cond_result_def label_defs)
  have t3: "eval_turns p3 = Some (Normal () m_cond_result)"
    by (subst eval_turns.simps) (simp add: bnd_def s3 c ret_def)
  have t2: "eval_turns p2 = Some (Normal () m_cond_result)"
    by (subst eval_turns.simps) (simp add: bnd_def s2 c t3)
  have t1: "eval_turns p1 = Some (Normal () m_cond_result)"
    by (subst eval_turns.simps) (simp add: bnd_def s1 c t2)
  have t0: "eval_turns p0 = Some (Normal () m_cond_result)"
    by (subst eval_turns.simps) (simp add: bnd_def s0 c t1)
  have "lstack m_cond = []" "LSTACKD m_cond = 16" by (simp_all add: m_cond_def m0_def)
  then show ?thesis
    unfolding evaluation_loop_def
    by (simp add: bnd_def push_label_def ret_def jump_def upd_def t0[unfolded p0_def])
qed

lemma m_cond_else_run: "evaluation_loop m_cond_else = Some (Longjmp m_cond_else_error)"
proof -
  define p0 where "p0 = m_cond_else\<lparr>lstack := [END_LABEL], cont_reg := START_LABEL\<rparr>"
  define p1 where "p1 = m_cond_else\<lparr>lstack := [END_LABEL], cont_reg := QUOTED_P_LABEL, oper := zap0 ''cond''\<rparr>"
  have f: "mem p0 = mem m_cond_else" "cbslbase p0 = 0x1000" "CBSLD p0 = 8"
    "mem p1 = mem m_cond_else" "cbslbase p1 = 0x1000" "CBSLD p1 = 8" "zap p1 = zap0"
    by (simp_all add: p0_def p1_def m_cond_else_def m0_def)
  have s0: "step p0 = Some (Normal () p1)"
  proof -
    have g: "cont_reg p0 = START_LABEL" "exp_reg p0 = 0x1000"
      by (simp_all add: p0_def m_cond_else_def m0_def)
    have "p0\<lparr>oper := zap0 ''cond'', cont_reg := QUOTED_P_LABEL\<rparr> = p1"
      by (simp add: p0_def p1_def)
    then show ?thesis
      using small_cbox(1)[OF f(2,3)] m_cond_else_cells(1)[OF f(1)]
      by (simp add: step_def Let_def start_def jump_def upd_def operator_def g)
  qed
  have k: "keywords_ok p1" by (rule keywords_ok_zap0[OF f(7)])
  have sh: "list_all2 (clause_shape p1) [0x1010] [Some [zap0 ''else'', true_zap]]"
    using m_cond_else_lists(2)[OF f(4,5,6)] by (simp add: clause_shape_def)
  have sp: "\<not> cond_clauses_spec (zap p1 ''else'') [Some [zap0 ''else'', true_zap]]"
    by (simp add: cond_clauses_spec_def f(7))
  have e1: "exp_reg p1 = 0x1000" "oper p1 = zap p1 ''cond''" "syntaxcheck p1" "cont_reg p1 = QUOTED_P_LABEL"
    by (simp_all add: p1_def m_cond_else_def m0_def)
  have h1: "hlist p1 (exp_reg p1) [zap p1 ''cond'', 0x1010]"
    using m_cond_else_lists(1)[OF f(4,5,6)] by (simp add: e1 f(7))
  have "step p1 = Some (Normal () (conditional_syntax_error p1))"
    using step_conditional_p[OF k e1(4,2)] conditional_p_cond[OF k e1(3,2) h1 sh] sp by simp
  moreover have "conditional_syntax_error p1 = m_cond_else_error"
    by (simp add: conditional_syntax_error_def write_call_def printf_def p1_def m_cond_else_error_def
        m_cond_else_def m0_def)
  ultimately have s1: "step p1 = Some (Normal () m_cond_else_error)" by simp
  have s2: "step m_cond_else_error = Some (Longjmp m_cond_else_error)"
    by (simp add: step_def Let_def m_cond_else_error_def label_defs goto_recoverable_error_def)
  have c: "cont_reg p1 \<noteq> END_LABEL" "cont_reg m_cond_else_error \<noteq> END_LABEL"
    by (simp_all add: p1_def m_cond_else_error_def label_defs)
  have t2: "eval_turns m_cond_else_error = Some (Longjmp m_cond_else_error)"
    by (subst eval_turns.simps) (simp add: bnd_def s2)
  have t1: "eval_turns p1 = Some (Longjmp m_cond_else_error)"
    by (subst eval_turns.simps) (simp add: bnd_def s1 c t2)
  have t0: "eval_turns p0 = Some (Longjmp m_cond_else_error)"
    by (subst eval_turns.simps) (simp add: bnd_def s0 c t1)
  have "lstack m_cond_else = []" "LSTACKD m_cond_else = 16" by (simp_all add: m_cond_else_def m0_def)
  then show ?thesis
    unfolding evaluation_loop_def
    by (simp add: bnd_def push_label_def ret_def jump_def upd_def t0[unfolded p0_def])
qed

lemma m_cond_dot_cells:
  assumes "mem s = mem m_cond_dot"
  shows "car s 0x1000 = zap0 ''cond''" "cdr s 0x1000 = true_zap"
  using assms
  by (simp_all add: car_def cdr_def ptr_add_def ZAP_SPECIAL_def m_cond_dot_def zap0_values true_zap_def
      make_bool_values NIL_def)

lemma m_cond_dot_improper:
  assumes "mem s = mem m_cond_dot" "cbslbase s = 0x1000" "CBSLD s = 8"
  shows "list_p s 0x1000 = Some False"
proof -
  have t: "true_zap \<noteq> NIL" by (simp add: true_zap_def make_bool_values NIL_def)
  have "list_p s true_zap = Some False"
    using small_cbox(5)[OF assms(2,3)] t by (subst list_p.simps) simp
  then show ?thesis
    using small_cbox(1)[OF assms(2,3)] m_cond_dot_cells[OF assms(1)]
    by (subst list_p.simps) (simp add: NIL_def)
qed

theorem cond_syntax_check_witness:
  "(let s = m_cond\<lparr>lstack := [END_LABEL]\<rparr>;
        q = s\<lparr>oper := zap s ''cond'', cont_reg := QUOTED_P_LABEL\<rparr>
    in keywords_ok s \<and> syntaxcheck s \<and> cont_reg s = START_LABEL \<and> cbox_p s (exp_reg s) \<and>
       car s (exp_reg s) = zap s ''cond'' \<and>
       hlist s (exp_reg s) [zap s ''cond'', 0x1010] \<and>
       list_all2 (clause_shape s) [0x1010] [Some [true_zap]] \<and>
       cond_clauses_spec (zap s ''else'') [Some [true_zap]] \<and>
       length (stack s) + 4 \<le> STACKD s \<and> length (lstack s) < LSTACKD s \<and>
       step s = Some (Normal () q) \<and>
       step q = Some (Normal () (q\<lparr>exp_reg := true_zap, cont_reg := START_LABEL,
                  stack := [NIL, NIL, NIL, 0x1000],
                  lstack := [CONDITIONAL_CONT_LABEL, END_LABEL]\<rparr>))) \<and>
   (let s = m_cond\<lparr>STACKD := 3, lstack := [END_LABEL]\<rparr>;
        q = s\<lparr>oper := zap s ''cond'', cont_reg := QUOTED_P_LABEL\<rparr>
    in \<not> (length (stack s) + 4 \<le> STACKD s \<and> length (lstack s) < LSTACKD s) \<and>
       (\<exists>t. step q = Some (Longjmp t) \<and>
            (out t = out s @ [Text ''*** Pointer-stack overflow ***''] \<or>
             out t = out s @ [Text ''*** Label-stack overflow ***'']))) \<and>
   (let s = m_cond_else\<lparr>lstack := [END_LABEL]\<rparr>;
        q = s\<lparr>oper := zap s ''cond'', cont_reg := QUOTED_P_LABEL\<rparr>
    in keywords_ok s \<and> syntaxcheck s \<and> cont_reg s = START_LABEL \<and> cbox_p s (exp_reg s) \<and>
       car s (exp_reg s) = zap s ''cond'' \<and>
       hlist s (exp_reg s) [zap s ''cond'', 0x1010] \<and>
       list_all2 (clause_shape s) [0x1010] [Some [zap s ''else'', true_zap]] \<and>
       \<not> cond_clauses_spec (zap s ''else'') [Some [zap s ''else'', true_zap]] \<and>
       step s = Some (Normal () q) \<and>
       step q = Some (Normal () (conditional_syntax_error q)) \<and>
       step (conditional_syntax_error q) = Some (Longjmp (conditional_syntax_error q))) \<and>
   (let s = m_cond_dot\<lparr>lstack := [END_LABEL]\<rparr>;
        q = s\<lparr>oper := zap s ''cond'', cont_reg := QUOTED_P_LABEL\<rparr>
    in keywords_ok s \<and> syntaxcheck s \<and> cont_reg s = START_LABEL \<and> cbox_p s (exp_reg s) \<and>
       car s (exp_reg s) = zap s ''cond'' \<and> list_p s (exp_reg s) = Some False \<and>
       step s = Some (Normal () q) \<and>
       step q = Some (Normal () (conditional_syntax_error q)))"
proof -
  define s1 where "s1 = m_cond\<lparr>lstack := [END_LABEL]\<rparr>"
  define s2 where "s2 = m_cond\<lparr>STACKD := 3, lstack := [END_LABEL]\<rparr>"
  define s3 where "s3 = m_cond_else\<lparr>lstack := [END_LABEL]\<rparr>"
  define s4 where "s4 = m_cond_dot\<lparr>lstack := [END_LABEL]\<rparr>"
  have f1: "mem s1 = mem m_cond" "cbslbase s1 = 0x1000" "CBSLD s1 = 8" "zap s1 = zap0"
    "exp_reg s1 = 0x1000" "syntaxcheck s1" "cont_reg s1 = START_LABEL" "stack s1 = []"
    "lstack s1 = [END_LABEL]" "STACKD s1 = 16" "LSTACKD s1 = 16" "env_reg s1 = NIL"
    by (simp_all add: s1_def m_cond_def m0_def START_LABEL_def)
  have f2: "mem s2 = mem m_cond" "cbslbase s2 = 0x1000" "CBSLD s2 = 8" "zap s2 = zap0"
    "exp_reg s2 = 0x1000" "syntaxcheck s2" "cont_reg s2 = START_LABEL" "stack s2 = []"
    "lstack s2 = [END_LABEL]" "STACKD s2 = 3" "LSTACKD s2 = 16" "env_reg s2 = NIL"
    by (simp_all add: s2_def m_cond_def m0_def START_LABEL_def)
  have f3: "mem s3 = mem m_cond_else" "cbslbase s3 = 0x1000" "CBSLD s3 = 8" "zap s3 = zap0"
    "exp_reg s3 = 0x1000" "syntaxcheck s3" "cont_reg s3 = START_LABEL"
    by (simp_all add: s3_def m_cond_else_def m0_def START_LABEL_def)
  have f4: "mem s4 = mem m_cond_dot" "cbslbase s4 = 0x1000" "CBSLD s4 = 8" "zap s4 = zap0"
    "exp_reg s4 = 0x1000" "syntaxcheck s4" "cont_reg s4 = START_LABEL"
    by (simp_all add: s4_def m_cond_dot_def m0_def START_LABEL_def)
  have k: "keywords_ok s1" "keywords_ok s2" "keywords_ok s3" "keywords_ok s4"
    by (rule keywords_ok_zap0, simp add: f1 f2 f3 f4)+
  have b: "cbox_p s1 (exp_reg s1)" "cbox_p s2 (exp_reg s2)" "cbox_p s3 (exp_reg s3)" "cbox_p s4 (exp_reg s4)"
    using small_cbox(1)[OF f1(2,3)] small_cbox(1)[OF f2(2,3)] small_cbox(1)[OF f3(2,3)]
      small_cbox(1)[OF f4(2,3)] by (simp_all add: f1 f2 f3 f4)
  have c: "car s1 (exp_reg s1) = zap s1 ''cond''" "car s2 (exp_reg s2) = zap s2 ''cond''"
    "car s3 (exp_reg s3) = zap s3 ''cond''" "car s4 (exp_reg s4) = zap s4 ''cond''"
    using m_cond_cells(1)[OF f1(1)] m_cond_cells(1)[OF f2(1)] m_cond_else_cells(1)[OF f3(1)]
      m_cond_dot_cells(1)[OF f4(1)] by (simp_all add: f1 f2 f3 f4)
  have h: "hlist s1 (exp_reg s1) [zap s1 ''cond'', 0x1010]" "hlist s2 (exp_reg s2) [zap s2 ''cond'', 0x1010]"
    "hlist s3 (exp_reg s3) [zap s3 ''cond'', 0x1010]"
    using m_cond_lists(1)[OF f1(1,2,3)] m_cond_lists(1)[OF f2(1,2,3)] m_cond_else_lists(1)[OF f3(1,2,3)]
    by (simp_all add: f1 f2 f3)
  have sh: "list_all2 (clause_shape s1) [0x1010] [Some [true_zap]]"
    "list_all2 (clause_shape s2) [0x1010] [Some [true_zap]]"
    "list_all2 (clause_shape s3) [0x1010] [Some [zap s3 ''else'', true_zap]]"
    using m_cond_lists(2)[OF f1(1,2,3)] m_cond_lists(2)[OF f2(1,2,3)] m_cond_else_lists(2)[OF f3(1,2,3)]
    by (simp_all add: clause_shape_def f3)
  have sp: "cond_clauses_spec (zap s1 ''else'') [Some [true_zap]]"
    "cond_clauses_spec (zap s2 ''else'') [Some [true_zap]]"
    "\<not> cond_clauses_spec (zap s3 ''else'') [Some [zap s3 ''else'', true_zap]]"
    by (simp_all add: cond_clauses_spec_def f1 f2 f3 zap0_values true_zap_def make_bool_values)
  have lp: "list_p s4 (exp_reg s4) = Some False"
    using m_cond_dot_improper[OF f4(1,2,3)] by (simp add: f4)
  have cells: "car s1 (car s1 (cdr s1 0x1000)) = true_zap" "cdr s1 (car s1 (cdr s1 0x1000)) = NIL"
    "cdr s1 (cdr s1 0x1000) = NIL"
    by (simp_all add: m_cond_cells[OF f1(1)])
  note t1 = cond_syntax_check[OF k(1) f1(6,7) b(1) c(1), of "[0x1010]" "[Some [true_zap]]"]
  note t2 = cond_syntax_check[OF k(2) f2(6,7) b(2) c(2), of "[0x1010]" "[Some [true_zap]]"]
  note t3 = cond_syntax_check[OF k(3) f3(6,7) b(3) c(3), of "[0x1010]" "[Some [zap s3 ''else'', true_zap]]"]
  note t4 = cond_syntax_check[OF k(4) f4(6,7) b(4) c(4), of "[]" "[]"]
  have 1: "step s1 = Some (Normal () (s1\<lparr>oper := zap s1 ''cond'', cont_reg := QUOTED_P_LABEL\<rparr>))"
    "step (s1\<lparr>oper := zap s1 ''cond'', cont_reg := QUOTED_P_LABEL\<rparr>) =
       Some (Normal () (s1\<lparr>oper := zap s1 ''cond'', cont_reg := QUOTED_P_LABEL,
                  exp_reg := true_zap, cont_reg := START_LABEL,
                  stack := [NIL, NIL, NIL, 0x1000],
                  lstack := [CONDITIONAL_CONT_LABEL, END_LABEL]\<rparr>))"
    using t1 h(1) sh(1) sp(1) by (simp_all add: Let_def f1 m_cond_cells[OF f1(1)])
  have 2: "\<exists>t. step (s2\<lparr>oper := zap s2 ''cond'', cont_reg := QUOTED_P_LABEL\<rparr>) = Some (Longjmp t) \<and>
            (out t = out s2 @ [Text ''*** Pointer-stack overflow ***''] \<or>
             out t = out s2 @ [Text ''*** Label-stack overflow ***''])"
    using t2 h(2) sh(2) sp(2) by (simp add: Let_def f2)
  have 3: "step s3 = Some (Normal () (s3\<lparr>oper := zap s3 ''cond'', cont_reg := QUOTED_P_LABEL\<rparr>))"
    "step (s3\<lparr>oper := zap s3 ''cond'', cont_reg := QUOTED_P_LABEL\<rparr>) =
       Some (Normal () (conditional_syntax_error (s3\<lparr>oper := zap s3 ''cond'', cont_reg := QUOTED_P_LABEL\<rparr>)))"
    "step (conditional_syntax_error (s3\<lparr>oper := zap s3 ''cond'', cont_reg := QUOTED_P_LABEL\<rparr>)) =
       Some (Longjmp (conditional_syntax_error (s3\<lparr>oper := zap s3 ''cond'', cont_reg := QUOTED_P_LABEL\<rparr>)))"
    using t3 h(3) sh(3) sp(3) by (simp_all add: Let_def)
  have 4: "step s4 = Some (Normal () (s4\<lparr>oper := zap s4 ''cond'', cont_reg := QUOTED_P_LABEL\<rparr>))"
    "step (s4\<lparr>oper := zap s4 ''cond'', cont_reg := QUOTED_P_LABEL\<rparr>) =
       Some (Normal () (conditional_syntax_error (s4\<lparr>oper := zap s4 ''cond'', cont_reg := QUOTED_P_LABEL\<rparr>)))"
    using t4 lp by (simp_all add: Let_def)
  show ?thesis
    unfolding Let_def s1_def[symmetric] s2_def[symmetric] s3_def[symmetric] s4_def[symmetric]
    by (intro conjI; (fact | simp add: f1 f2 f3 f4))
qed

text \<open>
  C7 as it was stated fails in both directions. The clause of \<open>(cond (#t))\<close> has one
  element, and the form is evaluated, to \<open>#t\<close>, with nothing printed. The last clause of
  \<open>(cond (else #t))\<close> is an \<open>else\<close> clause of two elements, and the evaluator prints the
  syntax error and leaves by the recovery jump: an \<open>else\<close> clause must not be the first one.
\<close>

theorem cond_claim_counterexample:
  "syntaxcheck m_cond \<and> hlist m_cond (exp_reg m_cond) [zap m_cond ''cond'', 0x1010] \<and>
   hlist m_cond 0x1010 [true_zap] \<and>
   evaluation_loop m_cond = Some (Normal () m_cond_result) \<and>
   val_reg m_cond_result = true_zap \<and> out m_cond_result = [] \<and>
   syntaxcheck m_cond_else \<and>
   hlist m_cond_else (exp_reg m_cond_else) [zap m_cond_else ''cond'', 0x1010] \<and>
   hlist m_cond_else 0x1010 [zap m_cond_else ''else'', true_zap] \<and>
   evaluation_loop m_cond_else = Some (Longjmp m_cond_else_error) \<and>
   out m_cond_else_error = [Text ''SYNTAX ERROR: incorrect usage for conditional in '', Written 0x1000]"
proof -
  have f: "mem m_cond = mem m_cond" "cbslbase m_cond = 0x1000" "CBSLD m_cond = 8" "zap m_cond = zap0"
    "cbslbase m_cond_else = 0x1000" "CBSLD m_cond_else = 8" "zap m_cond_else = zap0"
    "exp_reg m_cond = 0x1000" "exp_reg m_cond_else = 0x1000" "syntaxcheck m_cond" "syntaxcheck m_cond_else"
    by (simp_all add: m_cond_def m_cond_else_def m0_def)
  have "val_reg m_cond_result = true_zap" "out m_cond_result = []"
    "out m_cond_else_error = [Text ''SYNTAX ERROR: incorrect usage for conditional in '', Written 0x1000]"
    by (simp_all add: m_cond_result_def m_cond_else_error_def m_cond_def m_cond_else_def m0_def)
  then show ?thesis
    using m_cond_lists[OF refl f(2,3)] m_cond_else_lists[OF refl f(5,6)] m_cond_run m_cond_else_run
    by (simp add: f)
qed


section \<open>C3: allocation, collection and the retry\<close>

lemma out_prim [simp]:
  "out (poke a w s) = out s"
  "out (set_car a b s) = out s" "out (set_cdr a b s) = out s"
  "out (set_car_mark a s) = out s" "out (set_cdr_mark a s) = out s"
  "out (unset_car_mark a s) = out s" "out (unset_cdr_mark a s) = out s"
  "out (set_storage_mark a s) = out s" "out (unset_storage_mark a s) = out s"
  "out (set_car_nomodify a b s) = out s" "out (set_cdr_nomodify a b s) = out s"
  "out (set_freeptr a b s) = out s" "out (set_size a n s) = out s"
  by (simp_all add: poke_def set_car_def set_cdr_def set_car_mark_def set_cdr_mark_def
      unset_car_mark_def unset_cdr_mark_def set_storage_mark_def unset_storage_mark_def
      set_car_nomodify_def set_cdr_nomodify_def set_freeptr_def set_size_def Let_def)









lemma first_fit_flist:
  "flist s p bs \<Longrightarrow> first_fit s sz p lst = Some (first_fit_spec s sz bs lst)"
proof (induction bs arbitrary: p lst)
  case Nil
  then show ?case by (subst first_fit.simps) simp
next
  case (Cons b bs)
  from Cons.prems have b: "p = b" "b \<noteq> NIL" "flist s (get_freeptr s b) bs" by auto
  show ?case by (subst first_fit.simps) (simp add: b Cons.IH[OF b(3)])
qed

lemma first_fit_spec_NIL:
  "NIL \<notin> set bs \<Longrightarrow> (fst (first_fit_spec s sz bs lst) = NIL) = (\<forall>b \<in> set bs. get_size s b < sz)"
  by (induction bs arbitrary: lst) auto

lemma flist_no_NIL: "flist s p bs \<Longrightarrow> NIL \<notin> set bs"
  by (induction bs arbitrary: p) auto


lemma new_storage_fit:
  assumes "round_size n \<le> 65536" "flist s (stor_free s) bs" "\<exists>b \<in> set bs. round_size n \<le> get_size s b"
  shows "new_storage n s = carve (round_size n) (fst (first_fit_spec s (round_size n) bs NIL))
                       (snd (first_fit_spec s (round_size n) bs NIL)) s"
proof -
  let ?sz = "round_size n"
  have ff: "first_fit s ?sz (stor_free s) NIL = Some (first_fit_spec s ?sz bs NIL)"
    by (rule first_fit_flist[OF assms(2)])
  have "fst (first_fit_spec s ?sz bs NIL) \<noteq> NIL"
    using first_fit_spec_NIL[OF flist_no_NIL[OF assms(2)], of s ?sz NIL] assms(3)
    by (auto simp: not_less[symmetric])
  then show ?thesis
    using assms(1) by (simp add: new_storage_def Let_def ff split_beta not_less[symmetric])
qed






section \<open>The fields of a special value\<close>

text \<open>
  Each field operation, bit by bit; then what an accessor reads after a constructor, and the
  sign extension of the 16 bits of a short integer or a character.
\<close>

lemma bit_set_zap_special:
  "bit (set_zap_special x) n \<longleftrightarrow> (if n = 1 \<or> n = 2 then True else bit x n)"
  by (auto simp: set_zap_special_def ZAP_SPECIAL_def bit_simps bit_consts dest: bit_imp_le_length)

lemma bit_set_zap_type:
  "bit (set_zap_type x t) n \<longleftrightarrow> (if 3 \<le> n \<and> n < 8 then bit t (n - 3) else bit x n)"
  by (auto simp: set_zap_type_def bit_simps bit_consts dest: bit_imp_le_length)

lemma bit_set_zap_dataA:
  "bit (set_zap_dataA x c) n \<longleftrightarrow> (if 8 \<le> n \<and> n < 16 then bit c (n - 8) else bit x n)"
  by (auto simp: set_zap_dataA_def bit_simps bit_consts dest: bit_imp_le_length)

lemma bit_set_zap_dataB0:
  "bit (set_zap_dataB0 x c) n \<longleftrightarrow> (if 16 \<le> n \<and> n < 24 then bit c (n - 16) else bit x n)"
  by (auto simp: set_zap_dataB0_def bit_simps bit_consts dest: bit_imp_le_length)

lemma bit_set_zap_dataB1:
  "bit (set_zap_dataB1 x c) n \<longleftrightarrow> (if 24 \<le> n \<and> n < 32 then bit c (n - 24) else bit x n)"
  by (auto simp: set_zap_dataB1_def bit_simps bit_consts dest: bit_imp_le_length)

lemma bit_set_zap_dataB:
  "bit (set_zap_dataB x v) n \<longleftrightarrow> (if 16 \<le> n \<and> n < 32 then bit v (n - 16) else bit x n)"
  by (auto simp: set_zap_dataB_def bit_simps bit_consts dest: bit_imp_le_length)

lemma bit_get_zap_type: "bit (get_zap_type x) n \<longleftrightarrow> n < 5 \<and> bit x (n + 3)"
  by (auto simp: get_zap_type_def bit_simps bit_consts add.commute)

lemma bit_get_zap_dataA: "bit (get_zap_dataA x) n \<longleftrightarrow> n < 8 \<and> bit x (n + 8)"
  by (auto simp: get_zap_dataA_def bit_simps bit_consts add.commute)

lemma bit_get_zap_dataB0: "bit (get_zap_dataB0 x) n \<longleftrightarrow> n < 8 \<and> bit x (n + 16)"
  by (auto simp: get_zap_dataB0_def bit_simps bit_consts add.commute)

lemma bit_get_zap_dataB1: "bit (get_zap_dataB1 x) n \<longleftrightarrow> n < 8 \<and> bit x (n + 24)"
  by (auto simp: get_zap_dataB1_def bit_simps bit_consts add.commute)

lemma bit_get_zap_dataB: "bit (get_zap_dataB x) n \<longleftrightarrow> n < 16 \<and> bit x (n + 16)"
  by (auto simp: get_zap_dataB_def bit_simps bit_consts add.commute)

lemmas bit_zap = bit_set_zap_special bit_set_zap_type bit_set_zap_dataA bit_set_zap_dataB0
  bit_set_zap_dataB1 bit_set_zap_dataB bit_get_zap_type bit_get_zap_dataA bit_get_zap_dataB0
  bit_get_zap_dataB1 bit_get_zap_dataB

lemma zap_special_special [simp]: "special_p (set_zap_special x)"
proof -
  have "bit (set_zap_special x AND 6) 1"
    by (simp add: bit_zap bit_simps bit_consts)
  then show ?thesis by (auto simp: special_p_def)
qed

lemma type_of_special [simp]: "get_zap_type (set_zap_special x) = get_zap_type x"
  by (rule bit_eqI) (auto simp: bit_zap)

lemma type_of_dataA [simp]: "get_zap_type (set_zap_dataA x c) = get_zap_type x"
  by (rule bit_eqI) (auto simp: bit_zap)

lemma type_of_dataB0 [simp]: "get_zap_type (set_zap_dataB0 x c) = get_zap_type x"
  by (rule bit_eqI) (auto simp: bit_zap)

lemma type_of_dataB1 [simp]: "get_zap_type (set_zap_dataB1 x c) = get_zap_type x"
  by (rule bit_eqI) (auto simp: bit_zap)

lemma type_of_dataB [simp]: "get_zap_type (set_zap_dataB x v) = get_zap_type x"
  by (rule bit_eqI) (auto simp: bit_zap)

lemma type_of_type [simp]: "get_zap_type (set_zap_type x t) = take_bit 5 t"
  by (rule bit_eqI) (auto simp: bit_zap bit_simps)

lemma dataA_of_special [simp]: "get_zap_dataA (set_zap_special x) = get_zap_dataA x"
  by (rule bit_eqI) (auto simp: bit_zap)

lemma dataB0_of_special [simp]: "get_zap_dataB0 (set_zap_special x) = get_zap_dataB0 x"
  by (rule bit_eqI) (auto simp: bit_zap)

lemma dataB1_of_special [simp]: "get_zap_dataB1 (set_zap_special x) = get_zap_dataB1 x"
  by (rule bit_eqI) (auto simp: bit_zap)

lemma dataB_of_special [simp]: "get_zap_dataB (set_zap_special x) = get_zap_dataB x"
  by (rule bit_eqI) (auto simp: bit_zap)

lemma dataA_of_dataA [simp]: "get_zap_dataA (set_zap_dataA x c) = c"
  by (rule bit_eqI) (auto simp: bit_zap dest: bit_imp_le_length)

lemma dataA_of_dataB0 [simp]: "get_zap_dataA (set_zap_dataB0 x c) = get_zap_dataA x"
  by (rule bit_eqI) (auto simp: bit_zap)

lemma dataA_of_dataB1 [simp]: "get_zap_dataA (set_zap_dataB1 x c) = get_zap_dataA x"
  by (rule bit_eqI) (auto simp: bit_zap)

lemma dataB0_of_dataB0 [simp]: "get_zap_dataB0 (set_zap_dataB0 x c) = c"
  by (rule bit_eqI) (auto simp: bit_zap dest: bit_imp_le_length)

lemma dataB0_of_dataB1 [simp]: "get_zap_dataB0 (set_zap_dataB1 x c) = get_zap_dataB0 x"
  by (rule bit_eqI) (auto simp: bit_zap)

lemma dataB1_of_dataB1 [simp]: "get_zap_dataB1 (set_zap_dataB1 x c) = c"
  by (rule bit_eqI) (auto simp: bit_zap dest: bit_imp_le_length)

lemma dataB_of_dataB [simp]: "get_zap_dataB (set_zap_dataB x v) = take_bit 16 v"
  by (rule bit_eqI) (auto simp: bit_zap bit_simps)

lemma magic_small [simp]:
  "take_bit 5 BOOL_MAGIC = BOOL_MAGIC" "take_bit 5 CHAR_MAGIC = CHAR_MAGIC"
  "take_bit 5 STRING_MAGIC_0 = STRING_MAGIC_0" "take_bit 5 STRING_MAGIC_1 = STRING_MAGIC_1"
  "take_bit 5 STRING_MAGIC_2 = STRING_MAGIC_2" "take_bit 5 STRING_MAGIC_3 = STRING_MAGIC_3"
  "take_bit 5 SHORT_MAGIC = SHORT_MAGIC" "take_bit 5 SYM_MAGIC_1 = SYM_MAGIC_1"
  "take_bit 5 SYM_MAGIC_2 = SYM_MAGIC_2" "take_bit 5 SYM_MAGIC_3 = SYM_MAGIC_3"
  by (simp_all add: BOOL_MAGIC_def CHAR_MAGIC_def STRING_MAGIC_0_def STRING_MAGIC_1_def
      STRING_MAGIC_2_def STRING_MAGIC_3_def SHORT_MAGIC_def SYM_MAGIC_1_def SYM_MAGIC_2_def
      SYM_MAGIC_3_def take_bit_eq_mod)


lemmas magic_defs = BOOL_MAGIC_def CHAR_MAGIC_def STRING_MAGIC_0_def STRING_MAGIC_1_def
      STRING_MAGIC_2_def STRING_MAGIC_3_def SHORT_MAGIC_def SYM_MAGIC_1_def SYM_MAGIC_2_def
      SYM_MAGIC_3_def


lemma bool_round_trip: "bool_of (make_bool b) = b" "bool_p (make_bool b)"
  by (cases b; simp add: bool_of_def bool_p_def true_zap_def false_zap_def make_bool_values)+

lemma sign_bits:
  fixes c :: "32 word"
  assumes "- 0x8000 \<le> sint c" "sint c \<le> 0x7FFF"
  shows "bit c n \<longleftrightarrow> n < 32 \<and> bit c (min 15 n)"
proof -
  have s: "signed_take_bit 15 (sint c) = sint c"
    using assms by (simp add: signed_take_bit_int_eq_self)
  have b: "bit c m \<longleftrightarrow> m < 32 \<and> bit (sint c) m" for m
    by (auto simp: bit_sint_iff dest: bit_imp_le_length)
  have "bit (sint c) n = bit (signed_take_bit 15 (sint c)) n" by (simp add: s)
  also have "\<dots> = bit (sint c) (min 15 n)" by (simp add: bit_signed_take_bit_iff)
  finally show ?thesis using b[of n] b[of "min 15 n"] by auto
qed

lemma sign_bits_high:
  fixes c :: "32 word"
  assumes "- 0x8000 \<le> sint c" "sint c \<le> 0x7FFF" "15 \<le> n" "n < 32"
  shows "bit c n = bit c 15"
  using sign_bits[OF assms(1,2), of n] assms(3,4) by (simp add: min_def)

lemma and_8000_iff:
  fixes x :: "32 word"
  shows "(x AND 0x8000 \<noteq> 0) = bit x 15"
proof -
  have "x AND 0x8000 = (if bit x 15 then 0x8000 else 0)"
    by (rule bit_eqI) (auto simp: bit_simps bit_consts)
  then show ?thesis by simp
qed

lemma sign_extend_neg:
  fixes c :: "32 word"
  assumes "- 0x8000 \<le> sint c" "sint c \<le> 0x7FFF" "bit c 15"
  shows "take_bit 16 c OR NOT 0xFFFF = c"
proof (rule bit_eqI)
  fix n assume "possible_bit TYPE(32 word) n"
  then have n: "n < 32" by simp
  show "bit (take_bit 16 c OR NOT 0xFFFF) n = bit c n"
  proof (cases "n < 16")
    case True
    then show ?thesis by (simp add: bit_simps bit_consts)
  next
    case False
    then have "bit c n" using sign_bits_high[OF assms(1,2), of n] n assms(3) by simp
    then show ?thesis using False n by (simp add: bit_simps bit_consts)
  qed
qed

lemma sign_extend_pos:
  fixes c :: "32 word"
  assumes "- 0x8000 \<le> sint c" "sint c \<le> 0x7FFF" "\<not> bit c 15"
  shows "take_bit 16 c = c"
proof (rule bit_eqI)
  fix n assume "possible_bit TYPE(32 word) n"
  then have n: "n < 32" by simp
  show "bit (take_bit 16 c) n = bit c n"
  proof (cases "n < 16")
    case True
    then show ?thesis by (simp add: bit_simps)
  next
    case False
    then have "\<not> bit c n" using sign_bits_high[OF assms(1,2), of n] n assms(3) by simp
    then show ?thesis using False by (simp add: bit_simps)
  qed
qed

lemma sign_extend_16:
  fixes c :: "32 word"
  assumes "- 0x8000 \<le> sint c" "sint c \<le> 0x7FFF"
  shows "(let i = take_bit 16 c in if i AND 0x8000 \<noteq> 0 then i OR NOT 0xFFFF else i) = c"
proof -
  have e: "(take_bit 16 c AND 0x8000 \<noteq> 0) = bit c 15"
    unfolding and_8000_iff by (simp add: bit_simps)
  show ?thesis
    unfolding Let_def e
    using sign_extend_neg[OF assms] sign_extend_pos[OF assms] by (cases "bit c 15") simp_all
qed

lemma char_round_trip:
  assumes "- 0x8000 \<le> sint c" "sint c \<le> 0x7FFF"
  shows "char_of_zap (make_char c) = c" "char_p (make_char c)"
  using sign_extend_16[OF assms]
  by (simp_all add: char_of_zap_def make_char_def char_p_def)

lemma short_round_trip:
  assumes "- 0x8000 \<le> sint i" "sint i \<le> 0x7FFF"
  shows "integer_of s (set_zap_special (set_zap_dataB (set_zap_type 0 SHORT_MAGIC) i)) = i"
    "integer_p s (set_zap_special (set_zap_dataB (set_zap_type 0 SHORT_MAGIC) i))"
  using sign_extend_16[OF assms]
  by (simp_all add: integer_of_def integer_p_def)


section \<open>C6: the quotient of two integers\<close>

subsection \<open>Rounding to a double\<close>

text \<open>
  Rounding moves a number of the normal range by at most the fraction \<open>2 powr -53\<close> of itself,
  and leaves an integer below \<open>2 ^ 53\<close> as it is. The quotient of two longs is either an
  integer, or at least \<open>1 / \<bar>b\<bar>\<close> away from the next integers, which is more than the
  rounding moves it: the rounded quotient has the floor of the exact one.
\<close>

lemma int_abs_ge1: "(m::int) \<noteq> 0 \<Longrightarrow> 1 \<le> \<bar>real_of_int m\<bar>"
proof -
  assume "m \<noteq> 0"
  then have "1 \<le> \<bar>m\<bar>" by simp
  then have "real_of_int 1 \<le> real_of_int \<bar>m\<bar>" by (simp only: of_int_le_iff)
  then show ?thesis by simp
qed

lemma round_half_even_of_int: "round_half_even (of_int m) = m"
  by (simp add: round_half_even_def)

lemma round_half_even_near: "\<bar>of_int (round_half_even y) - y\<bar> \<le> 1 / 2"
  unfolding round_half_even_def Let_def
  by (auto simp: abs_if) linarith+

lemma two_powr_floor_log_le:
  assumes "x \<noteq> 0"
  shows "2 powr (of_int \<lfloor>log 2 \<bar>x\<bar>\<rfloor>) \<le> \<bar>x::real\<bar>"
proof -
  have "(2::real) powr (of_int \<lfloor>log 2 \<bar>x\<bar>\<rfloor>) \<le> 2 powr (log 2 \<bar>x\<bar>)"
    by (rule powr_mono) auto
  also have "\<dots> = \<bar>x\<bar>" using assms by simp
  finally show ?thesis .
qed

lemma round_to_double_near:
  assumes "2 powr (- 1022) \<le> \<bar>x\<bar>"
  shows "\<bar>round_to_double x - x\<bar> \<le> \<bar>x\<bar> * 2 powr (- 53)"
proof -
  have "(0::real) < 2 powr (- 1022)" by simp
  with assms have x0: "x \<noteq> 0" by auto
  define e0 where "e0 = \<lfloor>log 2 \<bar>x\<bar>\<rfloor>"
  have "log 2 (2 powr (- 1022)) \<le> log 2 \<bar>x\<bar>"
    using assms x0 by (subst log_le_cancel_iff) auto
  then have "- 1022 \<le> log 2 \<bar>x\<bar>" by simp
  then have e0: "- 1022 \<le> e0" unfolding e0_def by (simp add: le_floor_iff)
  define p :: real where "p = 2 powr (of_int (e0 - 52))"
  have p0: "0 < p" by (simp add: p_def)
  have r: "round_to_double x = of_int (round_half_even (x / p)) * p"
    using x0 e0 by (simp add: round_to_double_def Let_def e0_def[symmetric] p_def max_def)
  have "of_int (round_half_even (x / p)) * p - x = (of_int (round_half_even (x / p)) - x / p) * p"
    using p0 by (simp add: field_simps)
  then have "\<bar>round_to_double x - x\<bar> = \<bar>of_int (round_half_even (x / p)) - x / p\<bar> * p"
    using p0 by (simp add: r abs_mult)
  also have "\<dots> \<le> 1 / 2 * p"
    using round_half_even_near[of "x / p"] p0 by (intro mult_right_mono) auto
  also have "\<dots> = 2 powr (of_int e0) * 2 powr (- 53)"
    by (simp add: p_def powr_diff powr_minus divide_simps)
  also have "\<dots> \<le> \<bar>x\<bar> * 2 powr (- 53)"
    using two_powr_floor_log_le[OF x0] by (intro mult_right_mono) (auto simp: e0_def)
  finally show ?thesis .
qed

lemma round_to_double_int:
  assumes "\<bar>k\<bar> < 2 ^ 53"
  shows "round_to_double (of_int k) = of_int k"
proof (cases "k = 0")
  case True
  then show ?thesis by (simp add: round_to_double_def)
next
  case False
  define e0 where "e0 = \<lfloor>log 2 \<bar>real_of_int k\<bar>\<rfloor>"
  have k1: "1 \<le> \<bar>real_of_int k\<bar>" using False by (rule int_abs_ge1)
  then have "0 \<le> log 2 \<bar>real_of_int k\<bar>" by simp
  then have l: "0 \<le> e0" by (simp add: e0_def)
  have "\<bar>real_of_int k\<bar> < 2 ^ 53" using assms by (simp flip: of_int_abs)
  then have "log 2 \<bar>real_of_int k\<bar> < log 2 (2 ^ 53)"
    using k1 by (subst log_less_cancel_iff) auto
  moreover have "log 2 ((2::real) ^ 53) = 53" by (subst log_nat_power) auto
  ultimately have "log 2 \<bar>real_of_int k\<bar> < 53" by (simp only:)
  then have u: "e0 \<le> 52" by (simp add: e0_def floor_less_iff)
  define n where "n = nat (52 - e0)"
  have e: "real_of_int e0 - 52 = - real n" using u by (simp add: n_def)
  have p: "2 powr (real_of_int e0 - 52) = 1 / 2 ^ n"
    unfolding e by (simp add: powr_minus powr_realpow divide_simps)
  have "real_of_int k / (1 / 2 ^ n) = real_of_int (k * 2 ^ n)" by simp
  then have "round_half_even (real_of_int k / (1 / 2 ^ n)) = k * 2 ^ n"
    by (simp only: round_half_even_of_int)
  then show ?thesis
    using False l by (simp add: round_to_double_def Let_def e0_def[symmetric] max_def p)
qed

lemma floor_round_quotient:
  fixes a b :: int
  assumes a: "\<bar>a\<bar> \<le> 2 ^ 31" and b0: "b \<noteq> 0" and b: "\<bar>b\<bar> \<le> 2 ^ 31"
  shows "\<lfloor>round_to_double (of_int a / of_int b)\<rfloor> = \<lfloor>real_of_int a / of_int b\<rfloor>"
proof -
  define q :: real where "q = of_int a / of_int b"
  define k where "k = \<lfloor>q\<rfloor>"
  define B :: real where "B = \<bar>of_int b\<bar>"
  have B1: "1 \<le> B" unfolding B_def using b0 by (rule int_abs_ge1)
  have qa: "\<bar>q\<bar> * B = \<bar>real_of_int a\<bar>" using b0 by (simp add: q_def B_def abs_div)
  have "\<bar>real_of_int a\<bar> \<le> 2 ^ 31" using a by (simp flip: of_int_abs)
  then have qB: "\<bar>q\<bar> * B \<le> 2 ^ 31" by (simp add: qa)
  have qle: "\<bar>q\<bar> \<le> 2 ^ 31"
  proof -
    have "\<bar>q\<bar> * 1 \<le> \<bar>q\<bar> * B" using B1 by (intro mult_left_mono) auto
    with qB show ?thesis by simp
  qed
  show ?thesis
  proof (cases "q = of_int k")
    case True
    have "\<bar>real_of_int k\<bar> \<le> 2 ^ 31" using qle True by simp
    then have "\<bar>k\<bar> \<le> 2 ^ 31" by (simp flip: of_int_abs)
    then have "\<bar>k\<bar> < 2 ^ 53" by simp
    then have "round_to_double (of_int k) = of_int k" by (rule round_to_double_int)
    then show ?thesis using True by (simp add: q_def[symmetric])
  next
    case False
    have "of_int k \<le> q" unfolding k_def by (rule of_int_floor_le)
    with False have k1: "of_int k < q" by auto
    have k2: "q < of_int k + 1" by (simp add: k_def)
    have qb: "q * of_int b = of_int a" using b0 by (simp add: q_def)
    have lo: "1 \<le> (q - of_int k) * B"
    proof -
      have "(q - of_int k) * of_int b = of_int (a - k * b)" by (simp add: left_diff_distrib qb)
      then have "\<bar>q - of_int k\<bar> * B = \<bar>real_of_int (a - k * b)\<bar>"
        by (simp add: B_def flip: abs_mult)
      moreover have "a - k * b \<noteq> 0"
      proof
        assume "a - k * b = 0"
        then have "a = k * b" by simp
        then have "real_of_int a = of_int k * of_int b" by (simp only: of_int_mult)
        with b0 have "q = of_int k" by (simp add: q_def)
        with False show False by simp
      qed
      then have "1 \<le> \<bar>real_of_int (a - k * b)\<bar>" by (rule int_abs_ge1)
      ultimately show ?thesis using k1 by simp
    qed
    have hi: "1 \<le> (of_int k + 1 - q) * B"
    proof -
      have "(of_int k + 1 - q) * of_int b = of_int ((k + 1) * b - a)"
        by (simp add: left_diff_distrib qb distrib_right)
      then have "\<bar>of_int k + 1 - q\<bar> * B = \<bar>real_of_int ((k + 1) * b - a)\<bar>"
        by (simp add: B_def flip: abs_mult)
      moreover have "(k + 1) * b - a \<noteq> 0"
      proof
        assume "(k + 1) * b - a = 0"
        then have "a = (k + 1) * b" by simp
        then have "real_of_int a = of_int (k + 1) * of_int b" by (simp only: of_int_mult)
        with b0 have "q = of_int k + 1" by (simp add: q_def)
        with k2 show False by simp
      qed
      then have "1 \<le> \<bar>real_of_int ((k + 1) * b - a)\<bar>" by (rule int_abs_ge1)
      ultimately show ?thesis using k2 by simp
    qed
    have q0: "q \<noteq> 0" using False by (auto simp: k_def)
    then have a0: "a \<noteq> 0" by (auto simp: q_def)
    then have "1 \<le> \<bar>real_of_int a\<bar>" by (rule int_abs_ge1)
    then have qB1: "1 \<le> \<bar>q\<bar> * B" by (simp add: qa)
    have B31: "B \<le> 2 ^ 31" using b by (simp add: B_def flip: of_int_abs)
    have "1 \<le> \<bar>q\<bar> * 2 ^ 31"
    proof -
      have "\<bar>q\<bar> * B \<le> \<bar>q\<bar> * 2 ^ 31" using B31 by (intro mult_left_mono) auto
      with qB1 show ?thesis by simp
    qed
    then have "1 / 2 ^ 31 \<le> \<bar>q\<bar>" by (simp add: field_simps)
    moreover have "(2::real) powr (- 1022) \<le> 2 powr (- 31)" by (rule powr_mono) auto
    moreover have "(2::real) powr (- 31) = 1 / 2 ^ 31" by (simp add: powr_minus powr_realpow divide_simps)
    ultimately have "2 powr (- 1022) \<le> \<bar>q\<bar>" by simp
    then have err: "\<bar>round_to_double q - q\<bar> \<le> \<bar>q\<bar> * 2 powr (- 53)" by (rule round_to_double_near)
    have p53: "(2::real) powr (- 53) = 1 / 2 ^ 53" by (simp add: powr_minus powr_realpow divide_simps)
    have "\<bar>round_to_double q - q\<bar> * B \<le> \<bar>q\<bar> * 2 powr (- 53) * B"
      using err B1 by (intro mult_right_mono) auto
    also have "\<dots> = (\<bar>q\<bar> * B) * (1 / 2 ^ 53)" by (simp add: p53)
    also have "\<dots> \<le> 2 ^ 31 * (1 / 2 ^ 53)" using qB by (intro mult_right_mono) auto
    also have "\<dots> < 1" by simp
    finally have eB: "\<bar>round_to_double q - q\<bar> * B < 1" .
    have B0: "0 < B" using B1 by simp
    have "\<bar>round_to_double q - q\<bar> * B < (q - of_int k) * B" using eB lo by simp
    then have e1: "\<bar>round_to_double q - q\<bar> < q - of_int k" using B0 by simp
    have "\<bar>round_to_double q - q\<bar> * B < (of_int k + 1 - q) * B" using eB hi by simp
    then have e2: "\<bar>round_to_double q - q\<bar> < of_int k + 1 - q" using B0 by simp
    have "\<lfloor>round_to_double q\<rfloor> = k"
      using e1 e2 by (intro floor_unique) (auto simp: abs_if split: if_splits)
    then show ?thesis by (simp add: q_def[symmetric] k_def)
  qed
qed

lemma div_pos_range:
  fixes a b :: int
  assumes "0 < b"
  shows "0 \<le> a \<Longrightarrow> 0 \<le> a div b \<and> a div b \<le> a"
    and "a < 0 \<Longrightarrow> a \<le> a div b \<and> a div b < 0"
proof -
  show "0 \<le> a \<Longrightarrow> 0 \<le> a div b \<and> a div b \<le> a"
    using zdiv_mono2[of a 1 b] assms by (simp add: pos_imp_zdiv_nonneg_iff)
  show "a < 0 \<Longrightarrow> a \<le> a div b \<and> a div b < 0"
    using zdiv_mono2_neg[of a 1 b] assms div_neg_pos_less0[of a b] by simp
qed

lemma quotient_range:
  fixes a b :: int
  assumes "- (2 ^ 31) \<le> a" "a < 2 ^ 31" "b \<noteq> 0"
  shows "- (2 ^ 31) \<le> a div b" "a div b \<le> 2 ^ 31"
    "a div b = 2 ^ 31 \<longleftrightarrow> a = - (2 ^ 31) \<and> b = - 1"
proof -
  consider "0 < b" | "b = - 1" | "b < - 1" using assms(3) by linarith
  then have "- (2 ^ 31) \<le> a div b \<and> a div b \<le> 2 ^ 31 \<and>
    (a div b = 2 ^ 31 \<longleftrightarrow> a = - (2 ^ 31) \<and> b = - 1)"
  proof cases
    case 1
    then show ?thesis
      using div_pos_range[OF 1, of a] assms(1,2) by (cases "0 \<le> a") auto
  next
    case 2
    then show ?thesis using assms(1,2) by auto
  next
    case 3
    then have nb: "0 < - b" "1 < - b" by auto
    have e: "a div b = (- a) div (- b)" by simp
    show ?thesis
    proof (cases "0 < - a")
      case True
      then have "(- a) div (- b) < - a" using nb(2) by (rule int_div_less_self)
      moreover have "0 \<le> (- a) div (- b)" using True nb(1) by (simp add: pos_imp_zdiv_nonneg_iff del: div_minus_minus)
      ultimately show ?thesis using assms(1,2) 3 unfolding e by auto
    next
      case False
      then show ?thesis
        using div_pos_range(2)[OF nb(1), of "- a"] div_pos_range(1)[OF nb(1), of "- a"] assms(1,2) 3 unfolding e
        by (cases "a = 0") (auto simp del: div_minus_minus)
    qed
  qed
  then show "- (2 ^ 31) \<le> a div b" "a div b \<le> 2 ^ 31"
    "a div b = 2 ^ 31 \<longleftrightarrow> a = - (2 ^ 31) \<and> b = - 1" by simp_all
qed

lemma sint_min_iff: "(a :: 32 word) = 0x80000000 \<longleftrightarrow> sint a = - (2 ^ 31)"
proof -
  have "sint (0x80000000 :: 32 word) = - (2 ^ 31)" by simp
  then show ?thesis by (metis signed_word_eqI)
qed

lemma sint_m1_iff: "(a :: 32 word) = - 1 \<longleftrightarrow> sint a = - 1"
  by (metis sint_n1 signed_word_eqI)

subsection \<open>The loop of \<open>/\<close> on two arguments\<close>

lemma arith_loop_hlist:
  "hlist s p xs \<Longrightarrow> (syntaxcheck s \<longrightarrow> (\<forall>x \<in> set xs. integer_p s x)) \<Longrightarrow>
   arith_loop f msg p x s = Some (Normal (foldl (\<lambda>a v. f a (integer_of s v)) x xs) s)"
proof (induction xs arbitrary: p x)
  case Nil
  then show ?case by (subst arith_loop.simps) (simp add: ret_def)
next
  case (Cons y ys)
  from Cons.prems(1) have p: "p \<noteq> NIL" "car s p = y" "hlist s (cdr s p) ys" by simp_all
  have iy: "(syntaxcheck s \<and> \<not> integer_p s y) = False" using Cons.prems(2) by auto
  have r: "syntaxcheck s \<longrightarrow> (\<forall>x \<in> set ys. integer_p s x)" using Cons.prems(2) by auto
  show ?case
    using p iy Cons.IH[OF p(3) r, of "f x (integer_of s y)"]
    by (subst arith_loop.simps) auto
qed

lemma div_two_value:
  fixes a b :: long
  assumes "b \<noteq> 0"
  shows "long_of_double (floor_double (double_div (double_of_long a) (double_of_long b))) =
           (if a = 0x80000000 \<and> b = - 1 then 0x80000000
            else word_of_int \<lfloor>real_of_int (sint a) / real_of_int (sint b)\<rfloor>)"
proof -
  define x where "x = sint a"
  define y where "y = sint b"
  have xr: "- (2 ^ 31) \<le> x" "x < 2 ^ 31" using sint_ge[of a] sint_lt[of a] by (simp_all add: x_def)
  have yr: "\<bar>y\<bar> \<le> 2 ^ 31" using sint_ge[of b] sint_lt[of b] by (simp add: y_def)
  have y0: "y \<noteq> 0" using assms by (simp add: y_def signed_eq_0_iff)
  define m where "m = \<lfloor>real_of_int x / real_of_int y\<rfloor>"
  have md: "m = x div y" by (simp add: m_def floor_divide_of_int_eq)
  have fl: "\<lfloor>round_to_double (real_of_int x / real_of_int y)\<rfloor> = m"
    unfolding m_def using xr yr y0 by (intro floor_round_quotient) auto
  note qr = quotient_range[OF xr y0, folded md]
  define q where "q = round_to_double (real_of_int x / real_of_int y)"
  have "real_of_int m \<le> q" "q < real_of_int m + 1"
    using fl by (auto simp: q_def[symmetric] floor_eq_iff)
  moreover have "- (2 ^ 31) \<le> real_of_int m" "real_of_int m \<le> 2 ^ 31"
    using qr(1,2) by (simp_all flip: of_int_le_iff)
  ultimately have "\<bar>q\<bar> < 2 ^ 31 + 1" by (auto simp: abs_if)
  moreover have "(2::real) ^ 31 + 1 \<le> 2 ^ 1024" by simp
  ultimately have big: "\<not> 2 ^ 1024 \<le> \<bar>q\<bar>" by linarith
  have d: "double_div (double_of_long a) (double_of_long b) = Finite q"
    using y0 big by (simp add: double_div_def double_of_long_def x_def[symmetric] y_def[symmetric]
        q_def[symmetric] Let_def)
  have l: "long_of_double (floor_double (Finite q)) = (if m < 2 ^ 31 then word_of_int m else 0x80000000)"
    using qr(1) fl by (simp add: long_of_double_def floor_double_def Let_def q_def[symmetric])
  have e: "(a = 0x80000000 \<and> b = - 1) = (x = - (2 ^ 31) \<and> y = - 1)"
    by (simp add: x_def y_def sint_min_iff sint_m1_iff)
  show ?thesis
    using qr(2,3) unfolding e d l x_def[symmetric] y_def[symmetric] m_def[symmetric] by auto
qed


lemma div_words:
  assumes "keywords_ok s"
  shows "special_p (zap s ''/'')" "zap s ''/'' \<noteq> zap s ''car''" "zap s ''/'' \<noteq> zap s ''cdr''"
    "zap s ''/'' \<noteq> zap s ''+''" "zap s ''/'' \<noteq> zap s ''-''"
proof -
  have m: "''/'' \<in> set reserved_words" by (simp add: reserved_words_def)
  show "special_p (zap s ''/'')" using assms m by (auto simp: keywords_ok_def)
  show "zap s ''/'' \<noteq> zap s ''car''" "zap s ''/'' \<noteq> zap s ''cdr''"
    "zap s ''/'' \<noteq> zap s ''+''" "zap s ''/'' \<noteq> zap s ''-''"
    using zap_eq_iff[OF assms m, of "''car''"] zap_eq_iff[OF assms m, of "''cdr''"]
      zap_eq_iff[OF assms m, of "''+''"] zap_eq_iff[OF assms m, of "''-''"]
    by (simp_all add: reserved_words_def)
qed

lemma apply_builtin_div:
  assumes "keywords_ok s"
  shows "apply_builtin (zap s ''/'') args s = div_builtin args s"
  using div_words[OF assms] by (subst apply_builtin.simps) (simp add: apply_special_def)

lemma sint_quotient:
  fixes a b :: long
  assumes "b \<noteq> 0" "\<not> (a = 0x80000000 \<and> b = - 1)"
  shows "sint (word_of_int \<lfloor>real_of_int (sint a) / real_of_int (sint b)\<rfloor> :: long)
           = \<lfloor>real_of_int (sint a) / real_of_int (sint b)\<rfloor>"
proof -
  have b0: "sint b \<noteq> 0" using assms(1) by (simp add: signed_eq_0_iff)
  have n: "\<not> (sint a = - (2 ^ 31) \<and> sint b = - 1)"
    using assms(2) by (simp add: sint_min_iff sint_m1_iff)
  have r: "- (2 ^ 31) \<le> sint a" "sint a < 2 ^ 31" using sint_ge[of a] sint_lt[of a] by simp_all
  note q = quotient_range[OF r b0]
  have "sint a div sint b \<noteq> 2 ^ 31" using q(3) n by blast
  with q(2) have "sint a div sint b < 2 ^ 31" by linarith
  with q(1) have "sint (word_of_int (sint a div sint b) :: long) = sint a div sint b"
    by (simp add: sint_sbintrunc' signed_take_bit_int_eq_self)
  then show ?thesis by (simp only: floor_divide_of_int_eq)
qed

lemma div_builtin_two:
  assumes "hlist s args [x, y]" "syntaxcheck s \<longrightarrow> integer_p s x \<and> integer_p s y"
  shows "div_builtin args s =
     make_int (long_of_double (floor_double
        (double_div (double_of_long (integer_of s x)) (double_of_long (integer_of s y))))) s"
proof -
  from assms(1) have h: "args \<noteq> NIL" "car s args = x" "hlist s (cdr s args) [y]" by simp_all
  from h(3) have c: "cdr s args \<noteq> NIL" by simp
  have l: "arith_loop (\<lambda>xf v. double_div xf (double_of_long v))
             ''SYNTAX-ERROR: illegal argument for /: '' (cdr s args) (double_of_long (integer_of s x)) s
           = Some (Normal (double_div (double_of_long (integer_of s x)) (double_of_long (integer_of s y))) s)"
    using arith_loop_hlist[OF h(3), of "\<lambda>xf v. double_div xf (double_of_long v)"] assms(2)
    by simp
  show ?thesis
  proof (cases "syntaxcheck s")
    case True
    then show ?thesis using h(1,2) c l assms(2) by (simp add: div_builtin_def Let_def bnd_def)
  next
    case False
    then show ?thesis using h(1,2) c l by (simp add: div_builtin_def Let_def bnd_def)
  qed
qed


text \<open>
  C6. Applied to the list of two integers \<open>a\<close> and \<open>b\<close> with \<open>b\<close> not zero, other than the
  least long \<open>-2147483648\<close> with \<open>b = -1\<close>, the built-in \<open>/\<close> returns what \<open>make_int\<close> builds
  for \<open>floor (a / b)\<close>, the quotient rounded toward negative infinity, and that quotient is a
  long (the word holds it without wrapping). The arguments are any integers of the machine,
  short ones or blocks of the storage; with syntax checking on they have to be integers, as
  the branch tests.
\<close>

theorem div_floor:
  assumes "keywords_ok s" "hlist s args [x, y]"
    "syntaxcheck s \<longrightarrow> integer_p s x \<and> integer_p s y"
    "integer_of s y \<noteq> 0"
    "\<not> (integer_of s x = 0x80000000 \<and> integer_of s y = - 1)"
  shows "apply_builtin (zap s ''/'') args s =
           make_int (word_of_int \<lfloor>real_of_int (sint (integer_of s x)) / real_of_int (sint (integer_of s y))\<rfloor>) s
         \<and> sint (word_of_int \<lfloor>real_of_int (sint (integer_of s x)) / real_of_int (sint (integer_of s y))\<rfloor> :: long)
           = \<lfloor>real_of_int (sint (integer_of s x)) / real_of_int (sint (integer_of s y))\<rfloor>"
proof -
  have "long_of_double (floor_double
        (double_div (double_of_long (integer_of s x)) (double_of_long (integer_of s y))))
      = word_of_int \<lfloor>real_of_int (sint (integer_of s x)) / real_of_int (sint (integer_of s y))\<rfloor>"
    using div_two_value[OF assms(4), of "integer_of s x"] assms(5) by (simp only: if_False)
  then show ?thesis
    using apply_builtin_div[OF assms(1), of args] div_builtin_two[OF assms(2,3)]
      sint_quotient[OF assms(4,5)]
    by (simp only:) 
qed

lemma short_zap_low: "short_zap v AND 0x06 = 6" "short_zap v AND NOT 0x01 = short_zap v"
  "short_zap v AND - 2 = short_zap v"
proof -
  show "short_zap v AND 0x06 = 6"
    unfolding short_zap_def by (rule bit_eqI) (auto simp: bit_zap bit_simps bit_consts)
  show "short_zap v AND NOT 0x01 = short_zap v"
    unfolding short_zap_def by (rule bit_eqI) (auto simp: bit_zap bit_simps bit_consts)
  then show "short_zap v AND - 2 = short_zap v" by simp
qed

lemma short_zap_integer:
  assumes "- 0x8000 \<le> sint i" "sint i \<le> 0x7FFF"
  shows "integer_of s (short_zap i) = i" "integer_p s (short_zap i)"
    "make_int i s = Some (Normal (short_zap i) s)"
  using short_round_trip[OF assms, of s] assms by (simp_all add: short_zap_def make_int_def ret_def)

lemma m_div_cells:
  "car m_div 0x1000 = short_zap (- 7)" "cdr m_div 0x1000 = 0x1008"
  "car m_div 0x1008 = short_zap 2" "cdr m_div 0x1008 = NIL"
  by (simp_all add: car_def cdr_def ptr_add_def ZAP_SPECIAL_def m_div_def m0_def short_zap_low NIL_def)

lemma m_div_list: "hlist m_div 0x1000 [short_zap (- 7), short_zap 2]"
  using small_cbox(1,2)[of m_div]
  by (simp add: m_div_cells) (simp add: m_div_def m0_def NIL_def)


text \<open>The quotient of \<open>-7\<close> by \<open>2\<close> is \<open>-4\<close>.\<close>

theorem div_floor_witness:
  "keywords_ok m_div \<and> hlist m_div 0x1000 [short_zap (- 7), short_zap 2] \<and>
   integer_of m_div (short_zap (- 7)) = - 7 \<and> integer_of m_div (short_zap 2) = 2 \<and>
   apply_builtin (zap m_div ''/'') 0x1000 m_div = Some (Normal (short_zap (- 4)) m_div) \<and>
   integer_of m_div (short_zap (- 4)) = - 4 \<and> sint (- 4 :: long) = \<lfloor>- 7 / 2 :: real\<rfloor>"
proof -
  have k: "keywords_ok m_div" by (rule keywords_ok_zap0) (simp add: m_div_def m0_def)
  have i: "integer_of m_div (short_zap (- 7)) = - 7" "integer_of m_div (short_zap 2) = 2"
    "integer_of m_div (short_zap (- 4)) = - 4"
    "integer_p m_div (short_zap (- 7))" "integer_p m_div (short_zap 2)"
    "make_int (- 4) m_div = Some (Normal (short_zap (- 4)) m_div)"
    by (simp_all add: short_zap_integer)
  have f: "\<lfloor>- 7 / 2 :: real\<rfloor> = - 4" by (simp add: floor_eq_iff)
  from div_floor[OF k m_div_list] show ?thesis
    using k m_div_list by (simp add: i f)
qed


text \<open>
  C6 as it was stated fails at \<open>a = -2147483648\<close> and \<open>b = -1\<close>, two integers that the reader
  accepts: \<open>floor (a / b)\<close> is \<open>2147483648\<close>, which no long holds; the double holds it, and its
  conversion gives the least long, so that \<open>/\<close> returns \<open>-2147483648\<close>.
\<close>

lemma m_div_min_cells:
  "car m_div_min 0x1000 = 0x2000" "cdr m_div_min 0x1000 = 0x1008"
  "car m_div_min 0x1008 = short_zap (- 1)" "cdr m_div_min 0x1008 = NIL"
  by (simp_all add: car_def cdr_def ptr_add_def ZAP_SPECIAL_def m_div_min_def m0_def short_zap_low NIL_def)

lemma m_div_min_list: "hlist m_div_min 0x1000 [0x2000, short_zap (- 1)]"
  using small_cbox(1,2)[of m_div_min]
  by (simp add: m_div_min_cells) (simp add: m_div_min_def m0_def NIL_def)

lemma m_div_min_integer:
  "integer_p m_div_min 0x2000" "integer_of m_div_min 0x2000 = 0x80000000"
  by (simp_all add: integer_p_def integer_of_def special_p_def storage_p_def quadword_aligned_p_def
      ptr_add_def get_typedesc_def INTEGER_STORAGE_def extract_data_storage_integer_def
      m_div_min_def m0_def)

lemma m_div_min_alloc:
  "make_int 0x80000000 m_div_min = Some (Normal 0x2018 m_div_min_result)"
proof -
  have r: "round_size 4 = 2" by (simp add: round_size_def)
  have g: "get_size m_div_min 0x2008 = 6" "get_freeptr m_div_min 0x2008 = NIL"
    "stor_free m_div_min = 0x2008"
    by (simp_all add: get_size_def get_freeptr_def m_div_min_def m0_def ptr_add_def NIL_def Let_def)
  have l: "flist m_div_min (stor_free m_div_min) [0x2008]"
    by (simp add: g) (simp add: NIL_def)
  have "new_storage 4 m_div_min = carve 2 0x2008 NIL m_div_min"
    using new_storage_fit[of 4 m_div_min "[0x2008]"] l by (simp add: r g)
  also have "\<dots> = Some (Normal 0x2018 (set_size 0x2018 2 (poke 0x2018 0 (set_size 0x2008 4 m_div_min))))"
    by (simp add: carve_def g Let_def ret_def ptr_add_def)
  finally show ?thesis
    by (simp add: make_int_def bnd_def ret_def m_div_min_result_def)
qed

theorem div_long_min_counterexample:
  "keywords_ok m_div_min \<and> hlist m_div_min 0x1000 [0x2000, short_zap (- 1)] \<and>
   integer_p m_div_min 0x2000 \<and> integer_p m_div_min (short_zap (- 1)) \<and>
   sint (integer_of m_div_min 0x2000) = - 2147483648 \<and>
   sint (integer_of m_div_min (short_zap (- 1))) = - 1 \<and>
   apply_builtin (zap m_div_min ''/'') 0x1000 m_div_min = Some (Normal 0x2018 m_div_min_result) \<and>
   integer_p m_div_min_result 0x2018 \<and>
   sint (integer_of m_div_min_result 0x2018) = - 2147483648 \<and>
   \<lfloor>real_of_int (- 2147483648) / real_of_int (- 1)\<rfloor> = 2147483648"
proof -
  have k: "keywords_ok m_div_min" by (rule keywords_ok_zap0) (simp add: m_div_min_def m0_def)
  have i: "integer_of m_div_min (short_zap (- 1)) = - 1" "integer_p m_div_min (short_zap (- 1))"
    by (simp_all add: short_zap_integer)
  have "apply_builtin (zap m_div_min ''/'') 0x1000 m_div_min = make_int 0x80000000 m_div_min"
    using div_builtin_two[OF m_div_min_list] div_two_value[of "- 1" "0x80000000"]
    by (simp add: apply_builtin_div[OF k] i m_div_min_integer)
  then have a: "apply_builtin (zap m_div_min ''/'') 0x1000 m_div_min = Some (Normal 0x2018 m_div_min_result)"
    by (simp add: m_div_min_alloc)
  have r: "integer_p m_div_min_result 0x2018" "integer_of m_div_min_result 0x2018 = 0x80000000"
    by (simp_all add: integer_p_def integer_of_def special_p_def storage_p_def quadword_aligned_p_def
      ptr_add_def get_typedesc_def INTEGER_STORAGE_def extract_data_storage_integer_def
      m_div_min_result_def set_data_storage_integer_def set_typedesc_def set_size_def poke_def
      m_div_min_def m0_def Let_def)
  show ?thesis
    using k m_div_min_list a by (simp add: i r m_div_min_integer)
qed

section \<open>C5: the evaluation of and\<close>

subsection \<open>Turns and evaluations\<close>

lemma turns_mono: "turns h s t \<Longrightarrow> h' \<le> h \<Longrightarrow> turns h' s t"
  by (induction rule: turns.induct) (auto intro: turns.intros)

lemma turns_trans:
  "turns h s u \<Longrightarrow> h \<le> length (lstack u) \<Longrightarrow> cont_reg u \<noteq> END_LABEL \<Longrightarrow> turns h u t \<Longrightarrow> turns h s t"
  by (induction rule: turns.induct) (auto intro: turns.intros)

lemma turns_unique:
  "turns h s t \<Longrightarrow> turns h s t' \<Longrightarrow> length (lstack t) < h \<Longrightarrow> length (lstack t') < h \<Longrightarrow> t = t'"
proof (induction arbitrary: t' rule: turns.induct)
  case (one s t h)
  from one.prems(1) show ?case
    using one.hyps one.prems(2,3) by (cases rule: turns.cases) auto
next
  case (more s u h t)
  from more.prems(1) show ?case
  proof (cases rule: turns.cases)
    case one
    then show ?thesis using more.hyps(1,2) more.prems(3) by auto
  next
    case (more u')
    then show ?thesis using more.hyps(1) more.IH[of t'] \<open>length (lstack t) < h\<close> more.prems(3) by auto
  qed
qed

lemma evaluates_unique: "evaluates s t \<Longrightarrow> evaluates s t' \<Longrightarrow> t = t'"
  unfolding evaluates_def
  by (rule turns_unique[of "length (lstack s)" s]) (auto simp: neq_Nil_conv)

lemma turns_eval_turns:
  "turns h s t \<Longrightarrow> cont_reg t = END_LABEL \<Longrightarrow> eval_turns s = Some (Normal () t)"
proof (induction rule: turns.induct)
  case (one s t h)
  then show ?case by (subst eval_turns.simps) (simp add: bnd_def ret_def)
next
  case (more s u h t)
  then show ?case by (subst eval_turns.simps) (simp add: bnd_def)
qed

lemma evaluates_loop:
  assumes "evaluates (s\<lparr>lstack := END_LABEL # lstack s, cont_reg := START_LABEL\<rparr>) t"
    "length (lstack s) < LSTACKD s"
  shows "evaluation_loop s = Some (Normal () t)"
proof -
  from assms(1) have "turns (Suc (length (lstack s))) (s\<lparr>lstack := END_LABEL # lstack s, cont_reg := START_LABEL\<rparr>) t"
    "cont_reg t = END_LABEL"
    by (simp_all add: evaluates_def)
  then have "eval_turns (s\<lparr>lstack := END_LABEL # lstack s, cont_reg := START_LABEL\<rparr>) = Some (Normal () t)"
    by (rule turns_eval_turns)
  then show ?thesis
    using assms(2)
    by (simp add: evaluation_loop_def bnd_def push_label_def ret_def jump_def upd_def)
qed

lemma heap_upd [simp]:
  "car (t\<lparr>exp_reg := e\<rparr>) p = car t p" "cdr (t\<lparr>exp_reg := e\<rparr>) p = cdr t p"
  "car (t\<lparr>stack := st1\<rparr>) p = car t p" "cdr (t\<lparr>stack := st1\<rparr>) p = cdr t p"
  "car (t\<lparr>lstack := ls1\<rparr>) p = car t p" "cdr (t\<lparr>lstack := ls1\<rparr>) p = cdr t p"
  "car (t\<lparr>env_reg := e\<rparr>) p = car t p" "cdr (t\<lparr>env_reg := e\<rparr>) p = cdr t p"
  "car (t\<lparr>cont_reg := l\<rparr>) p = car t p" "cdr (t\<lparr>cont_reg := l\<rparr>) p = cdr t p"
  "car (t\<lparr>oper := e\<rparr>) p = car t p" "cdr (t\<lparr>oper := e\<rparr>) p = cdr t p"
  by (simp_all add: car_def cdr_def)

lemma step_and_cont: "cont_reg s = AND_CONT_LABEL \<Longrightarrow> step s = and_cont s"
  by (simp add: step_def Let_def label_defs)

lemma and_from_turns:
  assumes "and_from s t"
  shows "\<exists>s1. eval_first_of AND_CONT_LABEL s = Some (Normal () s1) \<and>
           cont_reg s1 = START_LABEL \<and> length (lstack s) \<le> length (lstack s1) \<and>
           turns (length (lstack s)) s1 t \<and>
           lstack s \<noteq> [] \<and> cont_reg t = hd (lstack s) \<and> lstack t = tl (lstack s) \<and> stack t = stack s"
  using assms
proof (induction rule: and_from.induct)
  case (last s t)
  have "eval_first_of AND_CONT_LABEL s =
      Some (Normal () (s\<lparr>exp_reg := car s (exp_reg s), cont_reg := START_LABEL\<rparr>))"
    using last(1) by (simp add: eval_first_of_def bnd_def ret_def upd_def jump_def)
  then show ?case using last(2) by (simp add: evaluates_def)
next
  case (stop s t1)
  let ?s1 = "s\<lparr>lstack := AND_CONT_LABEL # lstack s,
                      stack := cdr s (exp_reg s) # env_reg s # stack s,
                      exp_reg := car s (exp_reg s), cont_reg := START_LABEL\<rparr>"
  let ?t = "t1\<lparr>stack := stack s, exp_reg := cdr s (exp_reg s), env_reg := env_reg s,
                        lstack := tl (lstack s), cont_reg := hd (lstack s)\<rparr>"
  have e: "eval_first_of AND_CONT_LABEL s = Some (Normal () ?s1)"
    using stop(1,2,3)
    by (simp add: eval_first_of_def bnd_def ret_def upd_def jump_def push_label_def push_pointer_def)
  from stop(4) have t1: "turns (Suc (length (lstack s))) ?s1 t1" "cont_reg t1 = AND_CONT_LABEL"
    "lstack t1 = lstack s" "stack t1 = cdr s (exp_reg s) # env_reg s # stack s"
    by (simp_all add: evaluates_def)
  obtain l ls where ls: "lstack s = l # ls" using stop(6) by (cases "lstack s") auto
  have "step t1 = Some (Normal () ?t)"
    using t1(2,3,4) stop(5) ls
    by (simp add: step_and_cont and_cont_def bnd_def pop_pointer_def upd_def ret_def
        return_to_caller_def pop_label_def jump_def)
  then have "turns (length (lstack s)) t1 ?t" by (rule turns.one)
  moreover have "turns (length (lstack s)) ?s1 t1" by (rule turns_mono[OF t1(1)]) simp
  ultimately have "turns (length (lstack s)) ?s1 ?t"
    using t1(2,3) by (intro turns_trans[of _ ?s1 t1 ?t]) simp_all
  then show ?case using e stop(6) by simp
next
  case (go_on s t1 t)
  let ?s1 = "s\<lparr>lstack := AND_CONT_LABEL # lstack s,
                      stack := cdr s (exp_reg s) # env_reg s # stack s,
                      exp_reg := car s (exp_reg s), cont_reg := START_LABEL\<rparr>"
  let ?t1 = "t1\<lparr>stack := stack s, exp_reg := cdr s (exp_reg s), env_reg := env_reg s\<rparr>"
  have e: "eval_first_of AND_CONT_LABEL s = Some (Normal () ?s1)"
    using go_on(1,2,3)
    by (simp add: eval_first_of_def bnd_def ret_def upd_def jump_def push_label_def push_pointer_def)
  from go_on(4) have t1: "turns (Suc (length (lstack s))) ?s1 t1" "cont_reg t1 = AND_CONT_LABEL"
    "lstack t1 = lstack s" "stack t1 = cdr s (exp_reg s) # env_reg s # stack s"
    by (simp_all add: evaluates_def)
  from go_on.IH obtain s2 where s2: "eval_first_of AND_CONT_LABEL ?t1 = Some (Normal () s2)"
    "cont_reg s2 = START_LABEL" "length (lstack ?t1) \<le> length (lstack s2)"
    "turns (length (lstack ?t1)) s2 t" "lstack ?t1 \<noteq> []" "cont_reg t = hd (lstack ?t1)"
    "lstack t = tl (lstack ?t1)" "stack t = stack ?t1"
    by blast
  have "step t1 = Some (Normal () s2)"
    using t1(2,4) go_on(5) s2(1)
    by (simp add: step_and_cont and_cont_def bnd_def pop_pointer_def upd_def ret_def)
  then have "turns (length (lstack s)) t1 t"
    using s2(2,3,4) t1(3) by (intro turns.more[of t1 s2]) simp_all
  moreover have "turns (length (lstack s)) ?s1 t1" by (rule turns_mono[OF t1(1)]) simp
  ultimately have "turns (length (lstack s)) ?s1 t"
    using t1(2,3) by (intro turns_trans[of _ ?s1 t1 t]) simp_all
  then show ?case using e s2(5,6,7,8) t1(3) by simp
qed

lemma and_from_cont: "and_from s t \<Longrightarrow> and_from (s\<lparr>cont_reg := c\<rparr>) t"
proof (induction rule: and_from.cases)
  case (last s' t')
  then show ?case using and_from.last[of "s\<lparr>cont_reg := c\<rparr>" t] by simp
next
  case (stop s' t1)
  then show ?case using and_from.stop[of "s\<lparr>cont_reg := c\<rparr>" t1] by simp
next
  case (go_on s' t1 t')
  then show ?case using and_from.go_on[of "s\<lparr>cont_reg := c\<rparr>" t1 t] by simp
qed

text \<open>
  C5. Take a state at \<open>START_LABEL\<close> whose expression is a pair with the head \<open>and\<close> (a list,
  when syntax checking is on). With no operand its evaluation returns with \<open>#t\<close> in
  \<open>val_reg\<close>. With operands, whenever their evaluation ends in \<open>t\<close> as \<open>and_from\<close> says
  (from left to right, up to the first operand whose value is \<open>#f\<close>, the operands after that
  one never placed in \<open>exp_reg\<close>, and with the value of the last operand evaluated in
  \<open>val_reg\<close>), the evaluation of the form returns in \<open>t\<close>. An evaluation returns in one
  state only, and when the form is the expression that \<open>evaluation_loop\<close> was called for,
  the loop returns that state.
\<close>

theorem and_evaluation:
  assumes "keywords_ok s" "cont_reg s = START_LABEL" "cbox_p s (exp_reg s)"
    "car s (exp_reg s) = zap s ''and''" "syntaxcheck s \<longrightarrow> list_p s (exp_reg s) = Some True"
    "lstack s \<noteq> []"
  shows "(cdr s (exp_reg s) = NIL \<longrightarrow>
            evaluates s (s\<lparr>oper := zap s ''and'', exp_reg := NIL, val_reg := true_zap,
                           lstack := tl (lstack s), cont_reg := hd (lstack s)\<rparr>)) \<and>
         (cdr s (exp_reg s) \<noteq> NIL \<longrightarrow>
            (\<forall>t. and_from (s\<lparr>oper := zap s ''and'', exp_reg := cdr s (exp_reg s)\<rparr>) t \<longrightarrow>
                 evaluates s t)) \<and>
         (\<forall>t t'. evaluates s t \<longrightarrow> evaluates s t' \<longrightarrow> t = t') \<and>
         (\<forall>s0 t. s = s0\<lparr>lstack := END_LABEL # lstack s0, cont_reg := START_LABEL\<rparr> \<longrightarrow>
                 length (lstack s0) < LSTACKD s0 \<longrightarrow> evaluates s t \<longrightarrow>
                 evaluation_loop s0 = Some (Normal () t))"
proof -
  define q where "q = s\<lparr>oper := zap s ''and'', cont_reg := QUOTED_P_LABEL\<rparr>"
  have f: "mem q = mem s" "cbslbase q = cbslbase s" "CBSLD q = CBSLD s" "zap q = zap s"
    "exp_reg q = exp_reg s" "oper q = zap q ''and''" "cont_reg q = QUOTED_P_LABEL"
    "stack q = stack s" "lstack q = lstack s" "syntaxcheck q = syntaxcheck s"
    by (simp_all add: q_def)
  have k: "keywords_ok q" using assms(1) by (simp add: keywords_ok_def f)
  have 1: "step s = Some (Normal () q)"
    using step_start_cbox[OF assms(2,3)] assms(4) by (simp add: q_def)
  have st: "step q = and_p q" by (rule step_and_p[OF k f(7,6)])
  have l: "syntaxcheck s \<Longrightarrow> list_p q (exp_reg s) = Some True"
    using assms(5) list_p_same_heap[OF f(1,2,3), of "exp_reg s" True] by simp
  obtain l0 ls where ls: "lstack s = l0 # ls" using assms(6) by (cases "lstack s") auto
  have A: "evaluates s (s\<lparr>oper := zap s ''and'', exp_reg := NIL, val_reg := true_zap,
                           lstack := tl (lstack s), cont_reg := hd (lstack s)\<rparr>)"
    if n: "cdr s (exp_reg s) = NIL"
  proof -
    have "step q = Some (Normal () (s\<lparr>oper := zap s ''and'', exp_reg := NIL, val_reg := true_zap,
                           lstack := tl (lstack s), cont_reg := hd (lstack s)\<rparr>))"
      unfolding st and_p_def
      using n ls
      by (simp add: f l bnd_def opt_def upd_def ret_def return_to_caller_def pop_label_def jump_def
          operands_def)
        (simp add: q_def)
    then have "turns (length (lstack s)) q (s\<lparr>oper := zap s ''and'', exp_reg := NIL, val_reg := true_zap,
                           lstack := tl (lstack s), cont_reg := hd (lstack s)\<rparr>)"
      by (rule turns.one)
    then have "turns (length (lstack s)) s (s\<lparr>oper := zap s ''and'', exp_reg := NIL, val_reg := true_zap,
                           lstack := tl (lstack s), cont_reg := hd (lstack s)\<rparr>)"
      using 1 by (rule turns.more[rotated 3]) (simp_all add: f)
    then show ?thesis using assms(2,6) by (simp add: evaluates_def)
  qed
  have B: "evaluates s t"
    if n: "cdr s (exp_reg s) \<noteq> NIL" and a: "and_from (s\<lparr>oper := zap s ''and'', exp_reg := cdr s (exp_reg s)\<rparr>) t"
    for t
  proof -
    let ?q' = "q\<lparr>exp_reg := cdr s (exp_reg s)\<rparr>"
    have "?q' = (s\<lparr>oper := zap s ''and'', exp_reg := cdr s (exp_reg s)\<rparr>)\<lparr>cont_reg := QUOTED_P_LABEL\<rparr>"
      by (simp add: q_def)
    then have "and_from ?q' t"
      using and_from_cont[OF a, of QUOTED_P_LABEL] by (simp only:)
    from and_from_turns[OF this] obtain s1 where s1:
      "eval_first_of AND_CONT_LABEL ?q' = Some (Normal () s1)" "cont_reg s1 = START_LABEL"
      "length (lstack s) \<le> length (lstack s1)" "turns (length (lstack s)) s1 t"
      "cont_reg t = hd (lstack s)" "lstack t = tl (lstack s)" "stack t = stack s"
      by (auto simp: f)
    have "step q = Some (Normal () s1)"
      unfolding st and_p_def
      using n s1(1)
      by (simp add: f l bnd_def opt_def upd_def ret_def operands_def same_heap_prims[OF f(1,2,3)])
    then have "turns (length (lstack s)) q t"
      using s1(2,3,4) by (intro turns.more[of q s1]) simp_all
    then have "turns (length (lstack s)) s t"
      using 1 by (rule turns.more[rotated 3]) (simp_all add: f)
    then show ?thesis using assms(2,6) s1(5,6,7) by (simp add: evaluates_def)
  qed
  have C: "evaluation_loop s0 = Some (Normal () t)"
    if "s = s0\<lparr>lstack := END_LABEL # lstack s0, cont_reg := START_LABEL\<rparr>"
       "length (lstack s0) < LSTACKD s0" "evaluates s t" for s0 t
    using evaluates_loop[of s0 t] that by simp
  show ?thesis
    using A B C evaluates_unique[of s] by blast
qed

subsection \<open>Three forms\<close>

lemma self_eval_evaluates:
  assumes "cont_reg s = START_LABEL" "\<not> cbox_p s (exp_reg s)"
    "bool_p (exp_reg s) \<or> exp_reg s = NIL" "lstack s \<noteq> []"
  shows "evaluates s (s\<lparr>val_reg := exp_reg s, lstack := tl (lstack s), cont_reg := hd (lstack s)\<rparr>)"
proof -
  obtain l ls where ls: "lstack s = l # ls" using assms(4) by (cases "lstack s") auto
  have "step s = Some (Normal () (s\<lparr>val_reg := exp_reg s, lstack := tl (lstack s), cont_reg := hd (lstack s)\<rparr>))"
    using assms(1,2,3) ls
    by (auto simp: step_def Let_def start_def self_eval_p_def bnd_def upd_def
        return_to_caller_def pop_label_def ret_def jump_def)
  then have "turns (length (lstack s)) s (s\<lparr>val_reg := exp_reg s, lstack := tl (lstack s), cont_reg := hd (lstack s)\<rparr>)"
    by (rule turns.one)
  then show ?thesis using assms(1,4) by (simp add: evaluates_def)
qed

lemma and_zap0: "zap0 ''and'' = 0x56"
  by (simp add: zap0_def reserved_words_def)

lemma bool_zaps: "bool_p true_zap" "bool_p false_zap" "true_zap \<noteq> false_zap" "true_zap \<noteq> NIL"
  "false_zap \<noteq> NIL" "\<not> bool_p NIL"
  by (simp_all add: bool_p_def special_p_def get_zap_type_def BOOL_MAGIC_def true_zap_def false_zap_def
      make_bool_values NIL_def)

lemma special_not_cbox: "special_p v \<Longrightarrow> \<not> cbox_p s v"
  by (simp add: cbox_p_def)

lemma bool_special: "special_p true_zap" "special_p false_zap"
  by (simp_all add: special_p_def true_zap_def false_zap_def make_bool_values)

lemma m_and_empty_cells:
  assumes "mem s = mem m_and_empty"
  shows "car s 0x1000 = zap0 ''and''" "cdr s 0x1000 = NIL"
  using assms
  by (simp_all add: car_def cdr_def ptr_add_def ZAP_SPECIAL_def m_and_empty_def and_zap0 NIL_def)

lemma m_and_last_cells:
  assumes "mem s = mem m_and_last"
  shows "car s 0x1000 = zap0 ''and''" "cdr s 0x1000 = 0x1008"
    "car s 0x1008 = true_zap" "cdr s 0x1008 = 0x1010"
    "car s 0x1010 = false_zap" "cdr s 0x1010 = NIL"
  using assms
  by (simp_all add: car_def cdr_def ptr_add_def ZAP_SPECIAL_def m_and_last_def and_zap0 true_zap_def
      false_zap_def make_bool_values NIL_def)

lemma m_and_from:
  "and_from (m_and\<lparr>lstack := [END_LABEL], cont_reg := START_LABEL, oper := zap0 ''and'',
                    exp_reg := 0x1008\<rparr>) m_and_result"
proof -
  define s where "s = m_and\<lparr>lstack := [END_LABEL], cont_reg := START_LABEL, oper := zap0 ''and'',
                    exp_reg := 0x1008\<rparr>"
  define s1 where "s1 = s\<lparr>lstack := AND_CONT_LABEL # lstack s,
                      stack := cdr s (exp_reg s) # env_reg s # stack s,
                      exp_reg := car s (exp_reg s), cont_reg := START_LABEL\<rparr>"
  have f: "mem s = mem m_and" "exp_reg s = 0x1008" "lstack s = [END_LABEL]" "stack s = []"
    "LSTACKD s = 16" "STACKD s = 16" "env_reg s = NIL"
    by (simp_all add: s_def m_and_def m0_def)
  note c = m_and_cells[OF f(1)]
  have g: "cont_reg s1 = START_LABEL" "exp_reg s1 = false_zap" "lstack s1 = [AND_CONT_LABEL, END_LABEL]"
    by (simp_all add: s1_def f c)
  have e: "evaluates s1 (s1\<lparr>val_reg := exp_reg s1, lstack := tl (lstack s1), cont_reg := hd (lstack s1)\<rparr>)"
    by (rule self_eval_evaluates) (simp_all add: g bool_zaps special_not_cbox bool_special)
  have "and_from s ((s1\<lparr>val_reg := exp_reg s1, lstack := tl (lstack s1), cont_reg := hd (lstack s1)\<rparr>)
           \<lparr>stack := stack s, exp_reg := cdr s (exp_reg s), env_reg := env_reg s,
                        lstack := tl (lstack s), cont_reg := hd (lstack s)\<rparr>)"
    using e unfolding s1_def
    by (rule and_from.stop[rotated 3]) (simp_all add: f c g[unfolded s1_def] NIL_def)
  moreover have "(s1\<lparr>val_reg := exp_reg s1, lstack := tl (lstack s1), cont_reg := hd (lstack s1)\<rparr>)
           \<lparr>stack := stack s, exp_reg := cdr s (exp_reg s), env_reg := env_reg s,
                        lstack := tl (lstack s), cont_reg := hd (lstack s)\<rparr> = m_and_result"
    by (simp add: g f c) (simp add: s1_def s_def m_and_result_def m_and_def m0_def)
  ultimately show ?thesis by (simp add: s_def)
qed

lemma m_and_last_from:
  "and_from (m_and_last\<lparr>lstack := [END_LABEL], cont_reg := START_LABEL, oper := zap0 ''and'',
                    exp_reg := 0x1008\<rparr>) m_and_last_result"
proof -
  define s where "s = m_and_last\<lparr>lstack := [END_LABEL], cont_reg := START_LABEL, oper := zap0 ''and'',
                    exp_reg := 0x1008\<rparr>"
  define s1 where "s1 = s\<lparr>lstack := AND_CONT_LABEL # lstack s,
                      stack := cdr s (exp_reg s) # env_reg s # stack s,
                      exp_reg := car s (exp_reg s), cont_reg := START_LABEL\<rparr>"
  define t1 where "t1 = s1\<lparr>val_reg := exp_reg s1, lstack := tl (lstack s1), cont_reg := hd (lstack s1)\<rparr>"
  define s2 where "s2 = t1\<lparr>stack := stack s, exp_reg := cdr s (exp_reg s), env_reg := env_reg s\<rparr>"
  define s3 where "s3 = s2\<lparr>exp_reg := car s2 (exp_reg s2), cont_reg := START_LABEL\<rparr>"
  have f: "mem s = mem m_and_last" "exp_reg s = 0x1008" "lstack s = [END_LABEL]" "stack s = []"
    "LSTACKD s = 16" "STACKD s = 16" "env_reg s = NIL"
    by (simp_all add: s_def m_and_last_def m0_def)
  note c = m_and_last_cells[OF f(1)]
  have g: "cont_reg s1 = START_LABEL" "exp_reg s1 = true_zap" "lstack s1 = [AND_CONT_LABEL, END_LABEL]"
    by (simp_all add: s1_def f c)
  have e1: "evaluates s1 t1"
    unfolding t1_def
    by (rule self_eval_evaluates) (simp_all add: g bool_zaps special_not_cbox bool_special)
  have v1: "val_reg t1 \<noteq> false_zap" by (simp add: t1_def g bool_zaps)
  have f2: "mem s2 = mem m_and_last" "exp_reg s2 = 0x1010" "lstack s2 = [END_LABEL]"
    by (simp_all add: s2_def t1_def g f c) (simp add: s1_def f)
  note c2 = m_and_last_cells[OF f2(1)]
  have g3: "cont_reg s3 = START_LABEL" "exp_reg s3 = false_zap" "lstack s3 = [END_LABEL]"
    by (simp_all add: s3_def f2 c2)
  have e3: "evaluates s3 (s3\<lparr>val_reg := exp_reg s3, lstack := tl (lstack s3), cont_reg := hd (lstack s3)\<rparr>)"
    by (rule self_eval_evaluates) (simp_all add: g3 bool_zaps special_not_cbox bool_special)
  have r: "s3\<lparr>val_reg := exp_reg s3, lstack := tl (lstack s3), cont_reg := hd (lstack s3)\<rparr>
      = m_and_last_result"
    apply (simp add: g3)
    apply (simp add: s3_def f2 c2)
    apply (simp add: s2_def f c)
    apply (simp add: t1_def g)
    apply (simp add: s1_def f c)
    apply (simp add: s_def m_and_last_result_def m_and_last_def m0_def)
    done
  have e3': "evaluates s3 m_and_last_result" using e3 by (simp only: r)
  have "and_from s2 m_and_last_result"
    using e3' unfolding s3_def by (rule and_from.last[rotated]) (simp add: f2 c2)
  then have "and_from s m_and_last_result"
    using e1 v1 unfolding s2_def s1_def
    by (intro and_from.go_on[of s t1]) (simp_all add: f c NIL_def)
  then show ?thesis by (simp add: s_def)
qed


text \<open>
  \<open>(and)\<close> is evaluated to \<open>#t\<close>; \<open>(and #f (error "x"))\<close> to \<open>#f\<close> with nothing printed, the
  second operand is not evaluated; \<open>(and #t #f)\<close> to \<open>#f\<close>, the value of its last operand.
\<close>

theorem and_evaluation_witness:
  "(let s = m_and_empty\<lparr>lstack := [END_LABEL], cont_reg := START_LABEL\<rparr>
    in keywords_ok s \<and> cont_reg s = START_LABEL \<and> cbox_p s (exp_reg s) \<and>
       car s (exp_reg s) = zap s ''and'' \<and> list_p s (exp_reg s) = Some True \<and> lstack s \<noteq> [] \<and>
       cdr s (exp_reg s) = NIL \<and>
       evaluation_loop m_and_empty = Some (Normal () m_and_empty_result) \<and>
       val_reg m_and_empty_result = true_zap) \<and>
   (let s = m_and\<lparr>lstack := [END_LABEL], cont_reg := START_LABEL\<rparr>
    in keywords_ok s \<and> cont_reg s = START_LABEL \<and> cbox_p s (exp_reg s) \<and>
       car s (exp_reg s) = zap s ''and'' \<and> list_p s (exp_reg s) = Some True \<and> lstack s \<noteq> [] \<and>
       cdr s (exp_reg s) \<noteq> NIL \<and>
       and_from (s\<lparr>oper := zap s ''and'', exp_reg := cdr s (exp_reg s)\<rparr>) m_and_result \<and>
       evaluates s m_and_result \<and>
       evaluation_loop m_and = Some (Normal () m_and_result) \<and>
       val_reg m_and_result = false_zap \<and> out m_and_result = []) \<and>
   (let s = m_and_last\<lparr>lstack := [END_LABEL], cont_reg := START_LABEL\<rparr>
    in keywords_ok s \<and> cont_reg s = START_LABEL \<and> cbox_p s (exp_reg s) \<and>
       car s (exp_reg s) = zap s ''and'' \<and> list_p s (exp_reg s) = Some True \<and> lstack s \<noteq> [] \<and>
       cdr s (exp_reg s) \<noteq> NIL \<and>
       and_from (s\<lparr>oper := zap s ''and'', exp_reg := cdr s (exp_reg s)\<rparr>) m_and_last_result \<and>
       evaluation_loop m_and_last = Some (Normal () m_and_last_result) \<and>
       val_reg m_and_last_result = false_zap)"
proof -
  define a where "a = m_and_empty\<lparr>lstack := [END_LABEL], cont_reg := START_LABEL\<rparr>"
  define b where "b = m_and\<lparr>lstack := [END_LABEL], cont_reg := START_LABEL\<rparr>"
  define c where "c = m_and_last\<lparr>lstack := [END_LABEL], cont_reg := START_LABEL\<rparr>"
  have fa: "mem a = mem m_and_empty" "cbslbase a = 0x1000" "CBSLD a = 8" "zap a = zap0"
    "exp_reg a = 0x1000" "cont_reg a = START_LABEL" "lstack a = [END_LABEL]"
    by (simp_all add: a_def m_and_empty_def m0_def)
  have fb: "mem b = mem m_and" "cbslbase b = 0x1000" "CBSLD b = 16" "zap b = zap0"
    "exp_reg b = 0x1000" "cont_reg b = START_LABEL" "lstack b = [END_LABEL]"
    by (simp_all add: b_def m_and_def m0_def)
  have fc: "mem c = mem m_and_last" "cbslbase c = 0x1000" "CBSLD c = 8" "zap c = zap0"
    "exp_reg c = 0x1000" "cont_reg c = START_LABEL" "lstack c = [END_LABEL]"
    by (simp_all add: c_def m_and_last_def m0_def)
  have k: "keywords_ok a" "keywords_ok b" "keywords_ok c"
    by (rule keywords_ok_zap0, simp add: fa fb fc)+
  have p: "cbox_p a (exp_reg a)" "cbox_p b (exp_reg b)" "cbox_p c (exp_reg c)"
    using small_cbox(1)[OF fa(2,3)] m_and_cbox(1)[OF fb(2,3)] small_cbox(1)[OF fc(2,3)]
    by (simp_all add: fa fb fc)
  have w: "car a (exp_reg a) = zap a ''and''" "car b (exp_reg b) = zap b ''and''"
    "car c (exp_reg c) = zap c ''and''"
    using m_and_empty_cells(1)[OF fa(1)] m_and_cells(1)[OF fb(1)] m_and_last_cells(1)[OF fc(1)]
    by (simp_all add: fa fb fc)
  have d: "cdr a (exp_reg a) = NIL" "cdr b (exp_reg b) = 0x1008" "cdr c (exp_reg c) = 0x1008"
    using m_and_empty_cells(2)[OF fa(1)] m_and_cells(2)[OF fb(1)] m_and_last_cells(2)[OF fc(1)]
    by (simp_all add: fa fb fc)
  have la: "list_p a (exp_reg a) = Some True"
    using small_cbox(1)[OF fa(2,3)] m_and_empty_cells[OF fa(1)]
    by (intro hlist_list_p[of a _ "[zap0 ''and'']"]) (simp add: fa NIL_def)
  have lb: "list_p b (exp_reg b) = Some True"
    using m_and_list[OF fb(1,2,3)] by (simp add: fb)
  have lc: "list_p c (exp_reg c) = Some True"
    using small_cbox(1,2,3)[OF fc(2,3)] m_and_last_cells[OF fc(1)]
    by (intro hlist_list_p[of c _ "[zap0 ''and'', true_zap, false_zap]"]) (simp add: fc NIL_def)
  have n: "lstack a \<noteq> []" "lstack b \<noteq> []" "lstack c \<noteq> []" by (simp_all add: fa fb fc)
  have "b\<lparr>oper := zap b ''and'', exp_reg := cdr b (exp_reg b)\<rparr> =
      m_and\<lparr>lstack := [END_LABEL], cont_reg := START_LABEL, oper := zap0 ''and'', exp_reg := 0x1008\<rparr>"
    by (simp add: fb m_and_cells[OF fb(1)]) (simp add: b_def)
  with m_and_from
  have ab: "and_from (b\<lparr>oper := zap b ''and'', exp_reg := cdr b (exp_reg b)\<rparr>) m_and_result"
    by (simp only:)
  have "c\<lparr>oper := zap c ''and'', exp_reg := cdr c (exp_reg c)\<rparr> =
      m_and_last\<lparr>lstack := [END_LABEL], cont_reg := START_LABEL, oper := zap0 ''and'', exp_reg := 0x1008\<rparr>"
    by (simp add: fc m_and_last_cells[OF fc(1)]) (simp add: c_def)
  with m_and_last_from
  have ac: "and_from (c\<lparr>oper := zap c ''and'', exp_reg := cdr c (exp_reg c)\<rparr>) m_and_last_result"
    by (simp only:)
  have i: "a = m_and_empty\<lparr>lstack := END_LABEL # lstack m_and_empty, cont_reg := START_LABEL\<rparr>"
    "length (lstack m_and_empty) < LSTACKD m_and_empty"
    "b = m_and\<lparr>lstack := END_LABEL # lstack m_and, cont_reg := START_LABEL\<rparr>"
    "length (lstack m_and) < LSTACKD m_and"
    "c = m_and_last\<lparr>lstack := END_LABEL # lstack m_and_last, cont_reg := START_LABEL\<rparr>"
    "length (lstack m_and_last) < LSTACKD m_and_last"
    by (simp_all add: a_def b_def c_def m_and_empty_def m_and_def m_and_last_def m0_def)
  have ra: "a\<lparr>oper := zap a ''and'', exp_reg := NIL, val_reg := true_zap,
                           lstack := tl (lstack a), cont_reg := hd (lstack a)\<rparr> = m_and_empty_result"
    by (simp add: fa) (simp add: a_def m_and_empty_result_def m_and_empty_def m0_def)
  note ta = and_evaluation[OF k(1) fa(6) p(1) w(1) _ n(1)]
  note tb = and_evaluation[OF k(2) fb(6) p(2) w(2) _ n(2)]
  note tc = and_evaluation[OF k(3) fc(6) p(3) w(3) _ n(3)]
  have ea: "evaluates a m_and_empty_result" using ta la d(1) by (simp add: ra)
  have eb: "evaluates b m_and_result" using tb lb d(2) ab by (simp add: NIL_def)
  have ec: "evaluates c m_and_last_result" using tc lc d(3) ac by (simp add: NIL_def)
  have 1: "evaluation_loop m_and_empty = Some (Normal () m_and_empty_result)"
    using ta la i(1,2) ea by blast
  have 2: "evaluation_loop m_and = Some (Normal () m_and_result)"
    using tb lb i(3,4) eb by blast
  have 3: "evaluation_loop m_and_last = Some (Normal () m_and_last_result)"
    using tc lc i(5,6) ec by blast
  have v: "val_reg m_and_empty_result = true_zap" "val_reg m_and_result = false_zap"
    "out m_and_result = []" "val_reg m_and_last_result = false_zap"
    by (simp_all add: m_and_empty_result_def m_and_result_def m_and_last_result_def m_and_def m0_def)
  have dn: "cdr b (exp_reg b) \<noteq> NIL" "cdr c (exp_reg c) \<noteq> NIL" by (simp_all add: d NIL_def)
  show ?thesis
    unfolding Let_def a_def[symmetric] b_def[symmetric] c_def[symmetric]
    by (intro conjI; fact)
qed

end
